theory Spec2Isabelle
  imports Complex_Main "HOL-Library.Word"
begin

unbundle bit_operations_syntax

section \<open>The audio frame processor of \<open>App.tsx\<close>\<close>

subsection \<open>Numbers, bytes and strings\<close>

text \<open>
  A JavaScript number read from a \<open>Float32Array\<close> is a finite binary fraction, a NaN or
  an infinity. The product of a finite 32-bit float with \<open>32768 = 2 ^ 15\<close> is exact in
  double precision (the exponent only moves by 15), so the finite case is plain
  rational arithmetic.
\<close>

datatype js_number = Finite rat | NaN | PosInfinity | NegInfinity

type_synonym int16 = "16 word"
type_synonym byte = "8 word"

text \<open>\<open>inputData[i] * 32768\<close>.\<close>

fun times_32768 :: "js_number \<Rightarrow> js_number" where
  "times_32768 (Finite x) = Finite (x * 32768)"
| "times_32768 NaN = NaN"
| "times_32768 PosInfinity = PosInfinity"
| "times_32768 NegInfinity = NegInfinity"

text \<open>Rounding towards zero, the integer part that ECMAScript's \<open>ToInt16\<close> takes.\<close>

definition trunc :: "rat \<Rightarrow> int" where
  "trunc x = (if 0 \<le> x then \<lfloor>x\<rfloor> else \<lceil>x\<rceil>)"

text \<open>
  Storing a number into an \<open>Int16Array\<close> element applies \<open>ToInt16\<close>: a NaN or an
  infinity becomes 0, a finite number is truncated and reduced modulo \<open>2 ^ 16\<close> into the
  signed range. Nothing is clamped.
\<close>

fun ToInt16 :: "js_number \<Rightarrow> int16" where
  "ToInt16 (Finite x) = word_of_int (trunc x)"
| "ToInt16 NaN = 0"
| "ToInt16 PosInfinity = 0"
| "ToInt16 NegInfinity = 0"

text \<open>
  The loop of \<open>onaudioprocess\<close> over the input buffer:
  \<^verbatim>\<open>for (let i = 0; i < l; i++) { int16[i] = inputData[i] * 32768; }\<close>
\<close>

function int16_loop :: "js_number list \<Rightarrow> nat \<Rightarrow> int16 list \<Rightarrow> int16 list" where
  "int16_loop inputData i int16 =
     (if i < length inputData
      then int16_loop inputData (i + 1) (int16[i := ToInt16 (times_32768 (inputData ! i))])
      else int16)"
  by pat_completeness auto
termination
  by (relation "measure (\<lambda>(inputData, i, int16). length inputData - i)") auto

declare int16_loop.simps [simp del]

text \<open>\<open>new Int16Array(l)\<close> is zero-filled; the loop then runs from index 0.\<close>

definition to_int16_array :: "js_number list \<Rightarrow> int16 list" where
  "to_int16_array inputData = int16_loop inputData 0 (replicate (length inputData) 0)"

text \<open>
  \<open>new Uint8Array(int16.buffer)\<close> views the same memory as bytes: two per sample, the
  low byte first (little-endian, the byte order of the platforms the browser runs on).
\<close>

definition int16_bytes :: "int16 \<Rightarrow> byte list" where
  "int16_bytes w = [ucast w, ucast (drop_bit 8 w)]"

definition Uint8Array_of :: "int16 list \<Rightarrow> byte list" where
  "Uint8Array_of int16 = concat (map int16_bytes int16)"

text \<open>The payload of one frame before the transport encoding.\<close>

definition pcm_payload :: "js_number list \<Rightarrow> byte list" where
  "pcm_payload inputData = Uint8Array_of (to_int16_array inputData)"

subsection \<open>The transport encoding\<close>

text \<open>
  \<open>encode\<close> builds a binary string, one character per byte, and hands it to the
  platform's \<open>btoa\<close>:
  \<^verbatim>\<open>for (let i = 0; i < len; i++) { binary += String.fromCharCode(bytes[i]); }\<close>
\<close>

function binary_loop :: "byte list \<Rightarrow> nat \<Rightarrow> string \<Rightarrow> string" where
  "binary_loop bytes i binary =
     (if i < length bytes
      then binary_loop bytes (i + 1) (binary @ [char_of (unat (bytes ! i))])
      else binary)"
  by pat_completeness auto
termination
  by (relation "measure (\<lambda>(bytes, i, binary). length bytes - i)") auto

declare binary_loop.simps [simp del]

definition b64_alphabet :: string where
  "b64_alphabet = ''ABCDEFGHIJKLMNOPQRSTUVWXYZabcdefghijklmnopqrstuvwxyz0123456789+/''"

definition b64_digit :: "nat \<Rightarrow> char" where
  "b64_digit n = b64_alphabet ! (n mod 64)"

text \<open>\<open>btoa\<close>, the platform's base-64 encoder (RFC 4648, with padding), on code units.\<close>

fun b64_groups :: "nat list \<Rightarrow> string" where
  "b64_groups (a # b # c # rest) =
     [b64_digit (a div 4), b64_digit ((a mod 4) * 16 + b div 16),
      b64_digit ((b mod 16) * 4 + c div 64), b64_digit (c mod 64)] @ b64_groups rest"
| "b64_groups [a, b] =
     [b64_digit (a div 4), b64_digit ((a mod 4) * 16 + b div 16),
      b64_digit ((b mod 16) * 4), CHR ''='']"
| "b64_groups [a] =
     [b64_digit (a div 4), b64_digit ((a mod 4) * 16), CHR ''='', CHR ''='']"
| "b64_groups [] = []"

definition btoa :: "string \<Rightarrow> string" where
  "btoa binary = b64_groups (map of_char binary)"

definition encode :: "byte list \<Rightarrow> string" where
  "encode bytes = btoa (binary_loop bytes 0 [])"

text \<open>The \<open>base64Data\<close> of one \<open>onaudioprocess\<close> event.\<close>

definition base64Data_of :: "js_number list \<Rightarrow> string" where
  "base64Data_of inputData = encode (pcm_payload inputData)"

section \<open>The recording component\<close>

subsection \<open>Data\<close>

datatype source_mode = Mic | System

text \<open>The argument of \<open>getUserMedia\<close> or \<open>getDisplayMedia\<close>.\<close>

datatype capture_api = GetUserMedia | GetDisplayMedia

record audio_constraints =
  echoCancellation :: bool
  noiseSuppression :: bool
  autoGainControl :: bool

record video_constraints =
  width :: nat
  height :: nat

record capture_request =
  api :: capture_api
  video :: "video_constraints option"
  audio :: audio_constraints

text \<open>The argument of \<open>session.sendRealtimeInput\<close>, under its \<open>media\<close> key.\<close>

record realtime_input =
  data :: string
  mimeType :: string

text \<open>
  The promise returned by \<open>ai.live.connect\<close>. While it is pending it holds the
  callbacks registered with \<open>then\<close>, in registration order; each callback of
  \<open>onaudioprocess\<close> is determined by the \<open>base64Data\<close> it closes over.
\<close>

datatype promise = Pending "string list" | Fulfilled | Rejected

text \<open>
  The part of a server message that \<open>onmessage\<close> reads:
  \<open>message.serverContent?.inputTranscription\<close> and its \<open>text\<close>. The library
  declares the type outside the repository; each of the three may be absent, the
  text of a transcription included (\<open>text?: string\<close>).
\<close>

record transcription =
  transcription_text :: "string option"

record server_content =
  inputTranscription :: "transcription option"

record live_message =
  serverContent :: "server_content option"

type_synonym blob = "byte list"

text \<open>\<open>AudioMetadata\<close>, as \<open>onstop\<close> builds it.\<close>

record audio_metadata =
  blob :: blob
  url :: nat
  duration :: nat

text \<open>
  A call of \<open>downloadAudioFile\<close>: the blob and the two values the file name is built
  from (the source label and the argument of \<open>formatDuration\<close>).
\<close>

record download =
  dl_blob :: blob
  dl_source :: source_mode
  dl_time :: nat

text \<open>
  The constants of the render in which \<open>startRecording\<close> was created: the function
  and the handlers it installs read \<open>recordingTime\<close> and \<open>sourceMode\<close> from
  there, whatever the state is later.
\<close>

record start_closure =
  cl_recordingTime :: nat
  cl_sourceMode :: source_mode

text \<open>
  A \<open>MediaRecorder\<close>: whether it is recording, the encoded data it has gathered and
  not yet delivered, and what its \<open>onstop\<close> handler closes over (the render
  constants and \<open>captureStream\<close>).
\<close>

record media_recorder =
  rec_recording :: bool
  rec_gathered :: blob
  rec_closure :: start_closure
  rec_captureStream :: nat

record audio_context =
  ctx_closed :: bool
  ctx_graph :: bool

text \<open>
  The component: its React state, its refs, and the platform objects it has created.
  Objects live in lists and are named by their index; a ref holds an index or
  \<open>null\<close> (what the platform hands out is an object or a positive number, so a
  ref that holds one is truthy). \<open>streams\<close>, \<open>wakeLocks\<close> and \<open>timers\<close>
  record for each object whether it is still live (tracks not stopped, lock held,
  interval running).
  \<open>requests\<close>, \<open>wire\<close>, \<open>downloads\<close> and \<open>alerts\<close> log what the component
  has asked of its surroundings.
\<close>

record app =
  isRecording :: bool
  recordingTime :: nat
  audioData :: "audio_metadata option"
  stream :: "nat option"
  transcribedText :: string
  sourceMode :: source_mode
  isMobile :: bool
  mediaRecorderRef :: "nat option"
  chunksRef :: "blob list"
  timerRef :: "nat option"
  audioCtxRef :: "nat option"
  wakeLockRef :: "nat option"
  sessionPromiseRef :: "nat option"
  wakeLockSupported :: bool
  pendingStarts :: "start_closure list"
  pendingWakeLocks :: nat
  streams :: "bool list"
  promises :: "promise list"
  contexts :: "audio_context list"
  recorders :: "media_recorder list"
  wakeLocks :: "bool list"
  timers :: "bool list"
  objectUrls :: nat
  requests :: "capture_request list"
  wire :: "(nat \<times> realtime_input) list"
  downloads :: "download list"
  alerts :: nat

text \<open>The component after its first render, on a given platform.\<close>

definition initial_app :: "bool \<Rightarrow> bool \<Rightarrow> app" where
  "initial_app mobile wake =
     \<lparr>isRecording = False, recordingTime = 0, audioData = None, stream = None,
      transcribedText = [], sourceMode = Mic, isMobile = mobile,
      mediaRecorderRef = None, chunksRef = [], timerRef = None, audioCtxRef = None,
      wakeLockRef = None, sessionPromiseRef = None, wakeLockSupported = wake,
      pendingStarts = [], pendingWakeLocks = 0, streams = [], promises = [],
      contexts = [], recorders = [], wakeLocks = [], timers = [], objectUrls = 0,
      requests = [], wire = [], downloads = [], alerts = 0\<rparr>"

subsection \<open>Starting\<close>

text \<open>The stream request of \<open>startRecording\<close>, chosen by \<open>sourceMode\<close>.\<close>

definition capture_request_of :: "source_mode \<Rightarrow> capture_request" where
  "capture_request_of m =
     (if m = System
      then \<lparr>api = GetDisplayMedia, video = Some \<lparr>width = 1, height = 1\<rparr>,
            audio = \<lparr>echoCancellation = False, noiseSuppression = False,
                     autoGainControl = False\<rparr>\<rparr>
      else \<lparr>api = GetUserMedia, video = None,
            audio = \<lparr>echoCancellation = True, noiseSuppression = True,
                     autoGainControl = True\<rparr>\<rparr>)"

text \<open>
  \<open>startRecording\<close> up to its first \<open>await\<close>: the request is issued and the call
  is suspended, holding the constants of its render.
\<close>

definition startRecording :: "app \<Rightarrow> app" where
  "startRecording s =
     s\<lparr>requests := requests s @ [capture_request_of (sourceMode s)],
       pendingStarts := pendingStarts s @
         [\<lparr>cl_recordingTime = recordingTime s, cl_sourceMode = sourceMode s\<rparr>]\<rparr>"

text \<open>The \<open>catch\<close> block: the error is logged and an alert is shown.\<close>

definition start_catch :: "app \<Rightarrow> app" where
  "start_catch s = s\<lparr>alerts := alerts s + 1\<rparr>"

text \<open>
  The statements after the stream request that can throw: the constructor of the
  transcription client, the constructor of the audio context,
  \<open>createMediaStreamSource\<close> (a stream without an audio track), the constructor of
  the recorder and its \<open>start\<close>.
\<close>

datatype start_failure =
  AtGoogleGenAI | AtAudioContext | AtMediaStreamSource | AtMediaRecorder | AtRecorderStart

text \<open>\<open>timerRef.current = window.setInterval(...)\<close>.\<close>

definition start_timer :: "app \<Rightarrow> app" where
  "start_timer s = s\<lparr>timerRef := Some (length (timers s)), timers := timers s @ [True]\<rparr>"

text \<open>
  The blocks of \<open>startRecording\<close> after the stream request. First the state is
  reset: \<open>setStream(captureStream); setTranscribedText(''); setRecordingTime(0)\<close>.
\<close>

definition reset_for_recording :: "nat \<Rightarrow> app \<Rightarrow> app" where
  "reset_for_recording captureStream s =
     s\<lparr>stream := Some captureStream, transcribedText := [], recordingTime := 0\<rparr>"

text \<open>
  \<open>ai.live.connect\<close> returns a pending promise, which \<open>sessionPromiseRef\<close> then
  holds.
\<close>

definition connect_session :: "app \<Rightarrow> app" where
  "connect_session s =
     s\<lparr>promises := promises s @ [Pending []],
       sessionPromiseRef := Some (length (promises s))\<rparr>"

text \<open>\<open>new AudioContext\<close> and \<open>audioCtxRef.current = audioCtx\<close>.\<close>

definition create_audio_context :: "app \<Rightarrow> app" where
  "create_audio_context s =
     s\<lparr>contexts := contexts s @ [\<lparr>ctx_closed = False, ctx_graph = False\<rparr>],
       audioCtxRef := Some (length (contexts s))\<rparr>"

text \<open>
  The source node and the script processor are created, the handler is installed and
  the nodes are connected: from here on the context delivers buffers.
\<close>

definition connect_audio_graph :: "nat \<Rightarrow> app \<Rightarrow> app" where
  "connect_audio_graph audioCtx s =
     s\<lparr>contexts := (contexts s)[audioCtx := \<lparr>ctx_closed = False, ctx_graph = True\<rparr>]\<rparr>"

text \<open>
  \<open>new MediaRecorder(captureStream)\<close>, \<open>mediaRecorderRef.current = mediaRecorder\<close>,
  \<open>chunksRef.current = []\<close> and the two handlers.
\<close>

definition create_recorder :: "start_closure \<Rightarrow> nat \<Rightarrow> app \<Rightarrow> app" where
  "create_recorder cl captureStream s =
     s\<lparr>recorders := recorders s @
         [\<lparr>rec_recording = False, rec_gathered = [], rec_closure = cl,
           rec_captureStream = captureStream\<rparr>],
       mediaRecorderRef := Some (length (recorders s)), chunksRef := []\<rparr>"

text \<open>\<open>mediaRecorder.start()\<close>.\<close>

definition recorder_start :: "nat \<Rightarrow> app \<Rightarrow> app" where
  "recorder_start mediaRecorder s =
     s\<lparr>recorders := (recorders s)
         [mediaRecorder := (recorders s ! mediaRecorder)\<lparr>rec_recording := True\<rparr>]\<rparr>"

text \<open>
  \<open>startRecording\<close> from the point where the stream request has resolved with
  \<open>captureStream\<close>, run up to the statement that throws (if one does) or to the
  \<open>await\<close> of the wake lock. Where the platform has no wake lock,
  \<open>requestWakeLock\<close> returns without suspending and the timer is set at once.
\<close>

definition startRecording_resume ::
  "start_closure \<Rightarrow> nat \<Rightarrow> start_failure option \<Rightarrow> app \<Rightarrow> app" where
  "startRecording_resume cl captureStream failure s0 =
     (let s1 = reset_for_recording captureStream s0
      in if failure = Some AtGoogleGenAI then start_catch s1 else
      let s2 = connect_session s1
      in if failure = Some AtAudioContext then start_catch s2 else
      let audioCtx = length (contexts s2);
          s3 = create_audio_context s2
      in if failure = Some AtMediaStreamSource then start_catch s3 else
      let s4 = connect_audio_graph audioCtx s3
      in if failure = Some AtMediaRecorder then start_catch s4 else
      let mediaRecorder = length (recorders s4);
          s5 = create_recorder cl captureStream s4
      in if failure = Some AtRecorderStart then start_catch s5 else
      let s6 = (recorder_start mediaRecorder s5)\<lparr>isRecording := True\<rparr>
      in if wakeLockSupported s6
         then s6\<lparr>pendingWakeLocks := pendingWakeLocks s6 + 1\<rparr>
         else start_timer s6)"

text \<open>
  \<open>requestWakeLock\<close> once the platform has answered: the sentinel is kept, or the
  failure is logged.
\<close>

definition requestWakeLock_settled :: "bool \<Rightarrow> app \<Rightarrow> app" where
  "requestWakeLock_settled granted s =
     (if granted
      then s\<lparr>wakeLockRef := Some (length (wakeLocks s)), wakeLocks := wakeLocks s @ [True]\<rparr>
      else s)"

subsection \<open>Stopping\<close>

text \<open>\<open>ondataavailable\<close>: an empty chunk is not kept.\<close>

definition ondataavailable :: "blob \<Rightarrow> app \<Rightarrow> app" where
  "ondataavailable d s = (if 0 < length d then s\<lparr>chunksRef := chunksRef s @ [d]\<rparr> else s)"

text \<open>
  \<open>onstop\<close> of a recorder: one blob from the chunks, an object URL for it, the
  artifact, the download and the release of the stream's tracks. The duration and the
  file name come from the constants the handler closes over.
\<close>

definition onstop :: "media_recorder \<Rightarrow> app \<Rightarrow> app" where
  "onstop r s =
     (let b = concat (chunksRef s); u = objectUrls s
      in s\<lparr>objectUrls := u + 1,
           audioData := Some \<lparr>blob = b, url = u,
                               duration = cl_recordingTime (rec_closure r)\<rparr>,
           downloads := downloads s @
             [\<lparr>dl_blob = b, dl_source = cl_sourceMode (rec_closure r),
               dl_time = cl_recordingTime (rec_closure r)\<rparr>],
           streams := (streams s)[rec_captureStream r := False]\<rparr>)"

text \<open>
  \<open>MediaRecorder.stop()\<close>: a recorder that is recording becomes inactive, delivers
  what it has gathered to \<open>ondataavailable\<close> and then fires \<open>onstop\<close>; an inactive
  recorder fires nothing. The platform runs the two handlers right after the caller
  returns; they touch no field that the rest of \<open>stopRecording\<close> reads or writes, so
  they are taken at the call.
\<close>

definition recorder_stop :: "nat \<Rightarrow> app \<Rightarrow> app" where
  "recorder_stop i s =
     (if i < length (recorders s) \<and> rec_recording (recorders s ! i)
      then let r = recorders s ! i;
               s1 = s\<lparr>recorders := (recorders s)[i := r\<lparr>rec_recording := False, rec_gathered := []\<rparr>]\<rparr>
           in onstop r (ondataavailable (rec_gathered r) s1)
      else s)"

text \<open>The blocks of \<open>stopRecording\<close>, one for each ref it tests.\<close>

definition stop_media_recorder :: "app \<Rightarrow> app" where
  "stop_media_recorder s =
     (case mediaRecorderRef s of Some r \<Rightarrow> recorder_stop r s | None \<Rightarrow> s)"

definition close_audio_context :: "app \<Rightarrow> app" where
  "close_audio_context s =
     (case audioCtxRef s of
        Some c \<Rightarrow> s\<lparr>contexts := (contexts s)[c := (contexts s ! c)\<lparr>ctx_closed := True\<rparr>],
                   audioCtxRef := None\<rparr>
      | None \<Rightarrow> s)"

definition release_wake_lock :: "app \<Rightarrow> app" where
  "release_wake_lock s =
     (case wakeLockRef s of
        Some l \<Rightarrow> s\<lparr>wakeLocks := (wakeLocks s)[l := False], wakeLockRef := None\<rparr>
      | None \<Rightarrow> s)"

definition clear_timer :: "app \<Rightarrow> app" where
  "clear_timer s =
     (case timerRef s of
        Some t \<Rightarrow> s\<lparr>timers := (timers s)[t := False], timerRef := None\<rparr>
      | None \<Rightarrow> s)"

text \<open>
  \<open>stopRecording\<close>. The callback is created anew whenever \<open>isRecording\<close> changes,
  so a call made through the rendered component reads the current value.
\<close>

definition stopRecording :: "app \<Rightarrow> app" where
  "stopRecording s =
     (if isRecording s
      then let s1 = stop_media_recorder s;
               s2 = close_audio_context s1;
               s3 = s2\<lparr>isRecording := False\<rparr>;
               s4 = release_wake_lock s3;
               s5 = clear_timer s4
           in s5\<lparr>sessionPromiseRef := None\<rparr>
      else s)"

subsection \<open>The transcription session\<close>

definition sendRealtimeInput :: "nat \<Rightarrow> string \<Rightarrow> app \<Rightarrow> app" where
  "sendRealtimeInput p base64Data s =
     s\<lparr>wire := wire s @ [(p, \<lparr>data = base64Data, mimeType = ''audio/pcm;rate=16000''\<rparr>)]\<rparr>"

text \<open>
  \<open>promise.then(callback)\<close>: on a pending promise the callback is queued behind the
  earlier ones; on a fulfilled one it runs before any other event; on a rejected one
  it never runs.
\<close>

definition promise_then :: "nat \<Rightarrow> string \<Rightarrow> app \<Rightarrow> app" where
  "promise_then p base64Data s =
     (if p < length (promises s)
      then (case promises s ! p of
              Pending callbacks \<Rightarrow> s\<lparr>promises := (promises s)[p := Pending (callbacks @ [base64Data])]\<rparr>
            | Fulfilled \<Rightarrow> sendRealtimeInput p base64Data s
            | Rejected \<Rightarrow> s)
      else s)"

text \<open>\<open>scriptProcessor.onaudioprocess\<close>, with \<open>sessionPromiseRef.current?.then\<close>.\<close>

definition onaudioprocess :: "js_number list \<Rightarrow> app \<Rightarrow> app" where
  "onaudioprocess inputData s =
     (let base64Data = base64Data_of inputData
      in case sessionPromiseRef s of
           None \<Rightarrow> s
         | Some p \<Rightarrow> promise_then p base64Data s)"

text \<open>
  The connection settles: on success the queued callbacks run in their order, on
  failure they are discarded.
\<close>

definition connect_settled :: "nat \<Rightarrow> bool \<Rightarrow> app \<Rightarrow> app" where
  "connect_settled p ok s =
     (if p < length (promises s)
      then (case promises s ! p of
              Pending callbacks \<Rightarrow>
                (if ok
                 then foldl (\<lambda>s' d. sendRealtimeInput p d s')
                        (s\<lparr>promises := (promises s)[p := Fulfilled]\<rparr>) callbacks
                 else s\<lparr>promises := (promises s)[p := Rejected]\<rparr>)
            | Fulfilled \<Rightarrow> s
            | Rejected \<Rightarrow> s)
      else s)"

text \<open>
  \<open>prev + text\<close>: the string concatenation turns an absent text into the string
  \<open>undefined\<close>.
\<close>

definition appended_text :: "string option \<Rightarrow> string" where
  "appended_text text_field = (case text_field of Some t \<Rightarrow> t | None \<Rightarrow> ''undefined'')"

text \<open>
  \<open>onmessage\<close>: the guard tests the input transcription, not its text; a message that
  passes it appends \<open>prev + text\<close>.
\<close>

definition onmessage :: "live_message \<Rightarrow> app \<Rightarrow> app" where
  "onmessage message s =
     (case serverContent message of
        None \<Rightarrow> s
      | Some content \<Rightarrow>
          (case inputTranscription content of
             None \<Rightarrow> s
           | Some t \<Rightarrow>
               s\<lparr>transcribedText :=
                   transcribedText s @ appended_text (transcription_text t)\<rparr>))"

subsection \<open>Events\<close>

datatype capture_result = CaptureRejected | CaptureResolved "start_failure option"

text \<open>
  What can happen to the component: a click on the round button or on one of the two
  source buttons, the settling of a suspended stream request, wake-lock request or
  connection, a message of an open session, a full buffer of a running audio graph,
  encoded data gathered by a recorder, and a tick of a running interval.
\<close>

datatype event =
    ClickRecord
  | ClickMic
  | ClickSystem
  | StreamSettled nat capture_result
  | WakeLockSettled bool
  | ConnectSettled nat bool
  | Message nat live_message
  | AudioProcess nat "js_number list"
  | Gathered nat blob
  | Tick nat

definition remove_nth :: "nat \<Rightarrow> 'a list \<Rightarrow> 'a list" where
  "remove_nth k xs = take k xs @ drop (Suc k) xs"

text \<open>
  The source buttons are disabled while \<open>isRecording\<close> holds, and the system button
  is not rendered on a mobile platform.
\<close>

definition click_source :: "source_mode \<Rightarrow> app \<Rightarrow> app" where
  "click_source m s =
     (if isRecording s \<or> (m = System \<and> isMobile s) then s else s\<lparr>sourceMode := m\<rparr>)"

definition stream_settled :: "nat \<Rightarrow> capture_result \<Rightarrow> app \<Rightarrow> app" where
  "stream_settled k res s =
     (if k < length (pendingStarts s)
      then let cl = pendingStarts s ! k;
               s' = s\<lparr>pendingStarts := remove_nth k (pendingStarts s)\<rparr>
           in (case res of
                 CaptureRejected \<Rightarrow> start_catch s'
               | CaptureResolved failure \<Rightarrow>
                   startRecording_resume cl (length (streams s')) failure
                     (s'\<lparr>streams := streams s' @ [True]\<rparr>))
      else s)"

definition wake_lock_settled :: "bool \<Rightarrow> app \<Rightarrow> app" where
  "wake_lock_settled granted s =
     (if 0 < pendingWakeLocks s
      then start_timer (requestWakeLock_settled granted
             (s\<lparr>pendingWakeLocks := pendingWakeLocks s - 1\<rparr>))
      else s)"

definition session_open :: "nat \<Rightarrow> app \<Rightarrow> bool" where
  "session_open p s = (p < length (promises s) \<and> promises s ! p = Fulfilled)"

definition graph_running :: "nat \<Rightarrow> app \<Rightarrow> bool" where
  "graph_running c s =
     (c < length (contexts s) \<and> \<not> ctx_closed (contexts s ! c) \<and> ctx_graph (contexts s ! c))"

fun step :: "event \<Rightarrow> app \<Rightarrow> app" where
  "step ClickRecord s = (if isRecording s then stopRecording s else startRecording s)"
| "step ClickMic s = click_source Mic s"
| "step ClickSystem s = click_source System s"
| "step (StreamSettled k res) s = stream_settled k res s"
| "step (WakeLockSettled granted) s = wake_lock_settled granted s"
| "step (ConnectSettled p ok) s = connect_settled p ok s"
| "step (Message p message) s = (if session_open p s then onmessage message s else s)"
| "step (AudioProcess c inputData) s =
     (if graph_running c s then onaudioprocess inputData s else s)"
| "step (Gathered i d) s =
     (if i < length (recorders s) \<and> rec_recording (recorders s ! i)
      then s\<lparr>recorders := (recorders s)
              [i := (recorders s ! i)\<lparr>rec_gathered := rec_gathered (recorders s ! i) @ d\<rparr>]\<rparr>
      else s)"
| "step (Tick t) s =
     (if t < length (timers s) \<and> timers s ! t
      then s\<lparr>recordingTime := recordingTime s + 1\<rparr>
      else s)"

fun run :: "event list \<Rightarrow> app \<Rightarrow> app" where
  "run [] s = s"
| "run (e # es) s = run es (step e s)"

subsection \<open>Traces\<close>

text \<open>A message that carries the transcript delta \<open>t\<close>.\<close>

definition transcript_delta :: "string \<Rightarrow> live_message" where
  "transcript_delta t =
     \<lparr>serverContent = Some \<lparr>inputTranscription = Some \<lparr>transcription_text = Some t\<rparr>\<rparr>\<rparr>"

text \<open>A message with a transcription that has no text.\<close>

definition textless_delta :: live_message where
  "textless_delta =
     \<lparr>serverContent = Some \<lparr>inputTranscription = Some \<lparr>transcription_text = None\<rparr>\<rparr>\<rparr>"

text \<open>The text of the delta a message carries; the empty text when it carries none.\<close>

definition delta_of :: "live_message \<Rightarrow> string" where
  "delta_of message =
     (case serverContent message of
        None \<Rightarrow> []
      | Some content \<Rightarrow>
          (case inputTranscription content of
             None \<Rightarrow> []
           | Some t \<Rightarrow> (case transcription_text t of None \<Rightarrow> [] | Some x \<Rightarrow> x)))"

text \<open>What \<open>onmessage\<close> appends for a message.\<close>

definition appended_of :: "live_message \<Rightarrow> string" where
  "appended_of message =
     (case serverContent message of
        None \<Rightarrow> []
      | Some content \<Rightarrow>
          (case inputTranscription content of
             None \<Rightarrow> []
           | Some t \<Rightarrow> appended_text (transcription_text t)))"

text \<open>The messages whose transcription has no text, and the events that bring none.\<close>

definition textless :: "live_message \<Rightarrow> bool" where
  "textless message =
     (case serverContent message of
        None \<Rightarrow> False
      | Some content \<Rightarrow>
          (case inputTranscription content of
             None \<Rightarrow> False
           | Some t \<Rightarrow> transcription_text t = None))"

fun with_text :: "event \<Rightarrow> bool" where
  "with_text (Message p message) = (\<not> textless message)"
| "with_text e = True"

text \<open>The deltas that the events of a trace deliver, in arrival order.\<close>

fun received :: "event list \<Rightarrow> app \<Rightarrow> string list" where
  "received [] s = []"
| "received (Message p message # es) s =
     (if session_open p s then [delta_of message] else []) @
     received es (step (Message p message) s)"
| "received (e # es) s = received es (step e s)"

text \<open>The events in which a start obtains its stream.\<close>

fun acquires :: "event \<Rightarrow> bool" where
  "acquires (StreamSettled k (CaptureResolved failure)) = True"
| "acquires e = False"

text \<open>The events that neither start nor stop a recording nor settle a connection.\<close>

fun steady :: "event \<Rightarrow> bool" where
  "steady ClickRecord = False"
| "steady (StreamSettled k res) = False"
| "steady (ConnectSettled p ok) = False"
| "steady e = True"

text \<open>
  The buffers that the events of a trace hand to \<open>onaudioprocess\<close>, in production
  order: those of the audio graphs that run in \<open>s\<close>.
\<close>

fun frames :: "app \<Rightarrow> event list \<Rightarrow> js_number list list" where
  "frames s [] = []"
| "frames s (AudioProcess c inputData # es) =
     (if graph_running c s then [inputData] else []) @ frames s es"
| "frames s (e # es) = frames s es"

text \<open>The message that \<open>onaudioprocess\<close> sends for a buffer.\<close>

definition frame_message :: "js_number list \<Rightarrow> realtime_input" where
  "frame_message inputData =
     \<lparr>data = base64Data_of inputData, mimeType = ''audio/pcm;rate=16000''\<rparr>"

text \<open>
  The buffers whose send is bound to the promise \<open>p\<close> in the course of a trace: those
  that a running graph hands to \<open>onaudioprocess\<close> while \<open>sessionPromiseRef\<close> holds
  \<open>p\<close>, in production order.
\<close>

fun produced :: "nat \<Rightarrow> event list \<Rightarrow> app \<Rightarrow> js_number list list" where
  "produced p [] s = []"
| "produced p (AudioProcess c inputData # es) s =
     (if graph_running c s \<and> sessionPromiseRef s = Some p then [inputData] else []) @
     produced p es (step (AudioProcess c inputData) s)"
| "produced p (e # es) s = produced p es (step e s)"

text \<open>The messages sent on the session of promise \<open>p\<close>, in the order of sending.\<close>

definition sent :: "nat \<Rightarrow> app \<Rightarrow> realtime_input list" where
  "sent p s = map snd (filter (\<lambda>qm. fst qm = p) (wire s))"

text \<open>
  How a promise stands to the buffers \<open>fs\<close> produced for it and the messages \<open>ms\<close>
  sent on its session: while it is pending all of them are queued, in order, and
  nothing is sent; once it is fulfilled exactly they are sent, in order; when it is
  rejected nothing is sent.
\<close>

fun accounted :: "promise \<Rightarrow> js_number list list \<Rightarrow> realtime_input list \<Rightarrow> bool" where
  "accounted (Pending callbacks) fs ms = (callbacks = map base64Data_of fs \<and> ms = [])"
| "accounted Fulfilled fs ms = (ms = map frame_message fs)"
| "accounted Rejected fs ms = (ms = [])"

text \<open>
  The invariant of the component that ties the promises and the wire to the buffers
  \<open>L p\<close> produced for each promise so far.
\<close>

definition session_ledger :: "(nat \<Rightarrow> js_number list list) \<Rightarrow> app \<Rightarrow> bool" where
  "session_ledger L s =
     ((\<forall>p. sessionPromiseRef s = Some p \<longrightarrow> p < length (promises s)) \<and>
      (\<forall>p. length (promises s) \<le> p \<longrightarrow> L p = [] \<and> sent p s = []) \<and>
      (\<forall>p. p < length (promises s) \<longrightarrow> accounted (promises s ! p) (L p) (sent p s)))"

text \<open>
  The state of a running recording, as far as stopping it is concerned: recorder \<open>r\<close>
  is the current one and is recording, its \<open>onstop\<close> handler closes over \<open>cl\<close>, it
  has gathered \<open>g\<close>, and no chunk has been delivered yet.
\<close>

definition recording_with :: "nat \<Rightarrow> start_closure \<Rightarrow> blob \<Rightarrow> app \<Rightarrow> bool" where
  "recording_with r cl g s =
     (isRecording s \<and> mediaRecorderRef s = Some r \<and> r < length (recorders s) \<and>
      rec_recording (recorders s ! r) \<and> rec_closure (recorders s ! r) = cl \<and>
      rec_gathered (recorders s ! r) = g \<and> chunksRef s = [])"

section \<open>Properties of the frame processor\<close>

lemma int16_loop_eq:
  "i \<le> length inputData \<Longrightarrow> length int16 = length inputData \<Longrightarrow>
   int16_loop inputData i int16 =
     take i int16 @ map (\<lambda>x. ToInt16 (times_32768 x)) (drop i inputData)"
proof (induction inputData i int16 rule: int16_loop.induct)
  case (1 inputData i int16)
  show ?case
  proof (cases "i < length inputData")
    case True
    let ?v = "ToInt16 (times_32768 (inputData ! i))"
    have "int16_loop inputData i int16 = int16_loop inputData (i + 1) (int16[i := ?v])"
      using True by (subst int16_loop.simps) simp
    also have "\<dots> = take (i + 1) (int16[i := ?v]) @
        map (\<lambda>x. ToInt16 (times_32768 x)) (drop (i + 1) inputData)"
      using True "1.prems" by (intro "1.IH") simp_all
    also have "take (i + 1) (int16[i := ?v]) = take i int16 @ [?v]"
      using True "1.prems" by (simp add: take_Suc_conv_app_nth)
    also have "drop i inputData = inputData ! i # drop (i + 1) inputData"
      using True by (simp add: Cons_nth_drop_Suc)
    ultimately show ?thesis by simp
  next
    case False
    with "1.prems" show ?thesis by (subst int16_loop.simps) simp
  qed
qed

lemma to_int16_array_map:
  "to_int16_array inputData = map (\<lambda>x. ToInt16 (times_32768 x)) inputData"
  by (simp add: to_int16_array_def int16_loop_eq)

lemma binary_loop_eq:
  "i \<le> length bytes \<Longrightarrow>
   binary_loop bytes i binary = binary @ map (\<lambda>b. char_of (unat b)) (drop i bytes)"
proof (induction bytes i binary rule: binary_loop.induct)
  case (1 bytes i binary)
  show ?case
  proof (cases "i < length bytes")
    case True
    have "binary_loop bytes i binary =
        binary_loop bytes (i + 1) (binary @ [char_of (unat (bytes ! i))])"
      using True by (subst binary_loop.simps) simp
    also have "\<dots> = (binary @ [char_of (unat (bytes ! i))]) @
        map (\<lambda>b. char_of (unat b)) (drop (i + 1) bytes)"
      using True by (intro "1.IH") simp_all
    also have "drop i bytes = bytes ! i # drop (i + 1) bytes"
      using True by (simp add: Cons_nth_drop_Suc)
    ultimately show ?thesis by simp
  next
    case False
    with "1.prems" show ?thesis by (subst binary_loop.simps) simp
  qed
qed

lemma encode_eq: "encode bytes = btoa (map (\<lambda>b. char_of (unat b)) bytes)"
  by (simp add: encode_def binary_loop_eq)

lemma length_Uint8Array_of: "length (Uint8Array_of ws) = 2 * length ws"
  by (induction ws) (simp_all add: Uint8Array_of_def int16_bytes_def)

lemma Uint8Array_of_nth:
  "i < length ws \<Longrightarrow>
   Uint8Array_of ws ! (2 * i) = ucast (ws ! i) \<and>
   Uint8Array_of ws ! (2 * i + 1) = ucast (drop_bit 8 (ws ! i))"
proof (induction ws arbitrary: i)
  case Nil
  then show ?case by simp
next
  case (Cons w ws)
  show ?case
  proof (cases i)
    case 0
    then show ?thesis by (simp add: Uint8Array_of_def int16_bytes_def)
  next
    case (Suc j)
    with Cons.prems have "j < length ws" by simp
    from Cons.IH [OF this] show ?thesis
      using Suc by (simp add: Uint8Array_of_def int16_bytes_def)
  qed
qed

lemma int16_bytes_value:
  "unat (ucast (w::int16) :: byte) + 256 * unat (ucast (drop_bit 8 w) :: byte) = unat w"
proof -
  have lt: "unat w < 65536"
    using unsigned_less [of w, where ?'a = nat] by simp
  have lo: "unat (ucast w :: byte) = unat w mod 256"
    by (simp add: unsigned_ucast_eq take_bit_eq_mod)
  have "unat (drop_bit 8 w) = unat w div 256"
    by (subst unat_drop_bit_eq) (simp add: drop_bit_eq_div)
  then have "unat (ucast (drop_bit 8 w) :: byte) = (unat w div 256) mod 256"
    by (simp only: unsigned_ucast_eq take_bit_eq_mod) simp
  also have "\<dots> = unat w div 256"
    using lt by simp
  finally show ?thesis
    using lo by simp
qed

lemma sint_ToInt16: "sint (ToInt16 (Finite y)) = (trunc y + 32768) mod 65536 - 32768"
  by (simp add: sint_sbintrunc' signed_take_bit_eq_take_bit_shift take_bit_eq_mod)

lemma length_pcm_payload: "length (pcm_payload inputData) = 2 * length inputData"
  by (simp add: pcm_payload_def length_Uint8Array_of to_int16_array_map)

lemma pcm_payload_sample:
  assumes "i < length inputData"
  shows "unat (pcm_payload inputData ! (2 * i)) + 256 * unat (pcm_payload inputData ! (2 * i + 1))
         = unat (ToInt16 (times_32768 (inputData ! i)))"
proof -
  let ?ws = "to_int16_array inputData"
  have len: "i < length ?ws"
    using assms by (simp add: to_int16_array_map)
  have "?ws ! i = ToInt16 (times_32768 (inputData ! i))"
    using assms by (simp add: to_int16_array_map)
  with Uint8Array_of_nth [OF len] int16_bytes_value [of "?ws ! i"] show ?thesis
    by (simp add: pcm_payload_def)
qed

text \<open>
  C7. A buffer of 4096 samples gives a payload of exactly 8192 bytes before the
  transport encoding: two bytes per sample, low byte first, holding the sample times
  32768 as a 16-bit integer. The conversion truncates and wraps modulo \<open>2 ^ 16\<close>; it
  does not clamp, so the sample 1.0 becomes \<open>-32768\<close>.
\<close>

theorem frame_payload_8192_bytes:
  assumes "length inputData = 4096"
  shows "length (pcm_payload inputData) = 8192 \<and>
    (\<forall>i<4096. unat (pcm_payload inputData ! (2 * i)) +
        256 * unat (pcm_payload inputData ! (2 * i + 1)) =
        unat (ToInt16 (times_32768 (inputData ! i)))) \<and>
    (\<forall>x. sint (ToInt16 (times_32768 (Finite x))) =
        (trunc (x * 32768) + 32768) mod 65536 - 32768) \<and>
    sint (ToInt16 (times_32768 (Finite 1))) = - 32768"
proof (intro conjI allI impI)
  show "length (pcm_payload inputData) = 8192"
    using assms by (simp add: length_pcm_payload)
next
  fix i :: nat
  assume "i < 4096"
  with assms have "i < length inputData" by simp
  then show "unat (pcm_payload inputData ! (2 * i)) +
      256 * unat (pcm_payload inputData ! (2 * i + 1)) =
      unat (ToInt16 (times_32768 (inputData ! i)))"
    by (rule pcm_payload_sample)
next
  fix x
  show "sint (ToInt16 (times_32768 (Finite x))) = (trunc (x * 32768) + 32768) mod 65536 - 32768"
    by (simp only: times_32768.simps sint_ToInt16)
next
  show "sint (ToInt16 (times_32768 (Finite 1))) = - 32768"
    by (simp add: trunc_def)
qed

theorem frame_payload_8192_bytes_witness:
  "length (replicate 4096 (Finite 1)) = 4096 \<and>
   length (pcm_payload (replicate 4096 (Finite 1))) = 8192 \<and>
   unat (pcm_payload (replicate 4096 (Finite 1)) ! 0) +
     256 * unat (pcm_payload (replicate 4096 (Finite 1)) ! 1) = 32768"
proof -
  have len: "length (replicate 4096 (Finite 1)) = 4096"
    by simp
  note th = frame_payload_8192_bytes [OF len]
  have "(0::nat) < 4096"
    by simp
  from th [THEN conjunct2, THEN conjunct1, rule_format, OF this]
  have "unat (pcm_payload (replicate 4096 (Finite 1)) ! 0) +
      256 * unat (pcm_payload (replicate 4096 (Finite 1)) ! 1) = 32768"
    by (simp add: trunc_def)
  with len th [THEN conjunct1] show ?thesis
    by simp
qed

section \<open>Properties of the recording component\<close>

text \<open>
  C8. Every start issues one stream request, chosen by the source mode: for the
  microphone an audio-only request with echo cancellation, noise suppression and
  automatic gain control enabled; for system audio a display request with a nominal
  one-by-one video track and the three audio processings disabled.
\<close>

theorem capture_request_by_mode:
  "requests (startRecording s) = requests s @ [capture_request_of (sourceMode s)] \<and>
   capture_request_of Mic =
     \<lparr>api = GetUserMedia, video = None,
      audio = \<lparr>echoCancellation = True, noiseSuppression = True, autoGainControl = True\<rparr>\<rparr> \<and>
   capture_request_of System =
     \<lparr>api = GetDisplayMedia, video = Some \<lparr>width = 1, height = 1\<rparr>,
      audio = \<lparr>echoCancellation = False, noiseSuppression = False, autoGainControl = False\<rparr>\<rparr>"
  by (simp add: startRecording_def capture_request_of_def)

subsection \<open>Evaluation and traces\<close>

lemmas handler_defs =
  initial_app_def startRecording_def capture_request_of_def start_catch_def start_timer_def
  startRecording_resume_def reset_for_recording_def connect_session_def
  create_audio_context_def connect_audio_graph_def create_recorder_def recorder_start_def
  requestWakeLock_settled_def ondataavailable_def onstop_def recorder_stop_def
  stop_media_recorder_def close_audio_context_def release_wake_lock_def clear_timer_def
  stopRecording_def sendRealtimeInput_def promise_then_def onaudioprocess_def
  connect_settled_def appended_text_def onmessage_def remove_nth_def click_source_def
  stream_settled_def wake_lock_settled_def session_open_def graph_running_def Let_def

lemmas resume_defs =
  startRecording_resume_def reset_for_recording_def connect_session_def
  create_audio_context_def connect_audio_graph_def create_recorder_def recorder_start_def
  start_catch_def start_timer_def Let_def

lemma run_append: "run (es @ es') s = run es' (run es s)"
  by (induction es arbitrary: s) simp_all

lemma run_ticks:
  "t < length (timers s) \<Longrightarrow> timers s ! t \<Longrightarrow>
   run (replicate n (Tick t)) s = s\<lparr>recordingTime := recordingTime s + n\<rparr>"
  by (induction n arbitrary: s) simp_all

subsection \<open>What the blocks of stopping leave alone\<close>

lemma stop_blocks_keep [simp]:
  "isRecording (close_audio_context s) = isRecording s"
  "isRecording (release_wake_lock s) = isRecording s"
  "isRecording (clear_timer s) = isRecording s"
  "recordingTime (close_audio_context s) = recordingTime s"
  "recordingTime (release_wake_lock s) = recordingTime s"
  "recordingTime (clear_timer s) = recordingTime s"
  "audioData (close_audio_context s) = audioData s"
  "audioData (release_wake_lock s) = audioData s"
  "audioData (clear_timer s) = audioData s"
  "downloads (close_audio_context s) = downloads s"
  "downloads (release_wake_lock s) = downloads s"
  "downloads (clear_timer s) = downloads s"
  "transcribedText (close_audio_context s) = transcribedText s"
  "transcribedText (release_wake_lock s) = transcribedText s"
  "transcribedText (clear_timer s) = transcribedText s"
  "promises (close_audio_context s) = promises s"
  "promises (release_wake_lock s) = promises s"
  "promises (clear_timer s) = promises s"
  "wire (close_audio_context s) = wire s"
  "wire (release_wake_lock s) = wire s"
  "wire (clear_timer s) = wire s"
  by (simp_all add: close_audio_context_def release_wake_lock_def clear_timer_def
      split: option.split)

lemma recorder_stop_keep [simp]:
  "isRecording (recorder_stop i s) = isRecording s"
  "recordingTime (recorder_stop i s) = recordingTime s"
  "transcribedText (recorder_stop i s) = transcribedText s"
  "promises (recorder_stop i s) = promises s"
  "wire (recorder_stop i s) = wire s"
  by (simp_all add: recorder_stop_def ondataavailable_def onstop_def Let_def)

lemma stop_media_recorder_keep [simp]:
  "isRecording (stop_media_recorder s) = isRecording s"
  "recordingTime (stop_media_recorder s) = recordingTime s"
  "transcribedText (stop_media_recorder s) = transcribedText s"
  "promises (stop_media_recorder s) = promises s"
  "wire (stop_media_recorder s) = wire s"
  by (simp_all add: stop_media_recorder_def split: option.split)

lemma stopRecording_keep:
  "isRecording (stopRecording s) = False"
  "recordingTime (stopRecording s) = recordingTime s"
  "transcribedText (stopRecording s) = transcribedText s"
  "promises (stopRecording s) = promises s"
  "wire (stopRecording s) = wire s"
  "sessionPromiseRef (stopRecording s) = (if isRecording s then None else sessionPromiseRef s)"
  by (simp_all add: stopRecording_def Let_def)

subsection \<open>A recording from start to stop\<close>

lemma start_then_acquire:
  "stream_settled (length (pendingStarts s)) (CaptureResolved failure) (startRecording s) =
     startRecording_resume \<lparr>cl_recordingTime = recordingTime s, cl_sourceMode = sourceMode s\<rparr>
       (length (streams s)) failure
       (s\<lparr>requests := requests s @ [capture_request_of (sourceMode s)],
          streams := streams s @ [True]\<rparr>)"
  by (simp add: stream_settled_def startRecording_def remove_nth_def Let_def)

lemma resume_recording:
  "recording_with (length (recorders s)) cl [] (startRecording_resume cl cs None s)"
  by (simp add: recording_with_def resume_defs)

lemma resume_fields:
  "recordingTime (startRecording_resume cl cs None s) = 0"
  "objectUrls (startRecording_resume cl cs None s) = objectUrls s"
  "downloads (startRecording_resume cl cs None s) = downloads s"
  "timers (startRecording_resume cl cs None s) =
     (if wakeLockSupported s then timers s else timers s @ [True])"
  "pendingWakeLocks (startRecording_resume cl cs None s) =
     (if wakeLockSupported s then pendingWakeLocks s + 1 else pendingWakeLocks s)"
  by (simp_all add: resume_defs)

lemma wake_lock_recording:
  "recording_with r cl g s \<Longrightarrow> recording_with r cl g (wake_lock_settled granted s)"
  by (simp add: recording_with_def wake_lock_settled_def start_timer_def
      requestWakeLock_settled_def)

lemma wake_lock_fields:
  "recordingTime (wake_lock_settled granted s) = recordingTime s"
  "objectUrls (wake_lock_settled granted s) = objectUrls s"
  "downloads (wake_lock_settled granted s) = downloads s"
  "timers (wake_lock_settled granted s) =
     (if 0 < pendingWakeLocks s then timers s @ [True] else timers s)"
  by (simp_all add: wake_lock_settled_def start_timer_def requestWakeLock_settled_def)

lemma gathered_recording:
  "recording_with r cl g s \<Longrightarrow> recording_with r cl (g @ d) (step (Gathered r d) s)"
  by (simp add: recording_with_def)

lemma gathered_fields:
  "recordingTime (step (Gathered r d) s) = recordingTime s"
  "objectUrls (step (Gathered r d) s) = objectUrls s"
  "downloads (step (Gathered r d) s) = downloads s"
  by simp_all

lemma stop_artifact:
  assumes "recording_with r cl g s"
  shows "audioData (stopRecording s) =
      Some \<lparr>blob = g, url = objectUrls s, duration = cl_recordingTime cl\<rparr>"
    and "downloads (stopRecording s) = downloads s @
      [\<lparr>dl_blob = g, dl_source = cl_sourceMode cl, dl_time = cl_recordingTime cl\<rparr>]"
  using assms
  by (simp_all add: recording_with_def stopRecording_def stop_media_recorder_def
      recorder_stop_def ondataavailable_def onstop_def Let_def)

text \<open>
  C1. A completed recording (a start from the idle state whose every step succeeds, \<open>n\<close>
  ticks of its timer, then stop) produces exactly one artifact and one download. The
  elapsed time at stop is \<open>n\<close>, but the duration of the artifact is the value that
  \<open>recordingTime\<close> had in the render in which the start button was clicked: the
  \<open>onstop\<close> handler reads the constant of that render, not the state.
\<close>

theorem artifact_duration_is_start_time:
  assumes "\<not> isRecording s"
  shows "(let k = length (pendingStarts s); t = length (timers s); r = length (recorders s);
       s' = run ([ClickRecord, StreamSettled k (CaptureResolved None)] @
                 (if wakeLockSupported s then [WakeLockSettled granted] else []) @
                 replicate n (Tick t) @ [Gathered r d, ClickRecord]) s
     in recordingTime s' = n \<and>
        audioData s' = Some \<lparr>blob = d, url = objectUrls s, duration = recordingTime s\<rparr> \<and>
        downloads s' = downloads s @
          [\<lparr>dl_blob = d, dl_source = sourceMode s, dl_time = recordingTime s\<rparr>])"
proof -
  let ?cl = "\<lparr>cl_recordingTime = recordingTime s, cl_sourceMode = sourceMode s\<rparr>"
  let ?r = "length (recorders s)"
  let ?t = "length (timers s)"
  let ?s0 = "s\<lparr>requests := requests s @ [capture_request_of (sourceMode s)],
    streams := streams s @ [True]\<rparr>"
  define s1 where
    "s1 = run [ClickRecord, StreamSettled (length (pendingStarts s)) (CaptureResolved None)] s"
  define s2 where
    "s2 = run (if wakeLockSupported s then [WakeLockSettled granted] else []) s1"
  define s3 where "s3 = run (replicate n (Tick ?t)) s2"
  define s4 where "s4 = step (Gathered ?r d) s3"
  have s1: "s1 = startRecording_resume ?cl (length (streams s)) None ?s0"
    using assms by (simp add: s1_def start_then_acquire)
  have rec1: "recording_with ?r ?cl [] s1"
    using resume_recording [of ?s0 ?cl "length (streams s)"] by (simp add: s1)
  have f1: "recordingTime s1 = 0" "objectUrls s1 = objectUrls s" "downloads s1 = downloads s"
    "timers s1 = (if wakeLockSupported s then timers s else timers s @ [True])"
    "pendingWakeLocks s1 =
      (if wakeLockSupported s then pendingWakeLocks s + 1 else pendingWakeLocks s)"
    by (simp_all add: s1 resume_fields)
  have rec2: "recording_with ?r ?cl [] s2"
    using rec1 by (simp add: s2_def wake_lock_recording)
  have f2: "recordingTime s2 = 0" "objectUrls s2 = objectUrls s" "downloads s2 = downloads s"
    "timers s2 = timers s @ [True]"
    using f1 by (simp_all add: s2_def wake_lock_fields)
  have s3: "s3 = s2\<lparr>recordingTime := recordingTime s2 + n\<rparr>"
    unfolding s3_def by (rule run_ticks) (simp_all add: f2)
  have rec3: "recording_with ?r ?cl [] s3"
    using rec2 by (simp add: s3 recording_with_def)
  have f3: "recordingTime s3 = n" "objectUrls s3 = objectUrls s" "downloads s3 = downloads s"
    using f2 by (simp_all add: s3)
  have rec4: "recording_with ?r ?cl d s4"
    using gathered_recording [OF rec3, of d] by (simp add: s4_def)
  have f4: "recordingTime s4 = n" "objectUrls s4 = objectUrls s" "downloads s4 = downloads s"
    using f3 by (simp_all only: s4_def gathered_fields)
  have "isRecording s4"
    using rec4 by (simp add: recording_with_def)
  then have "step ClickRecord s4 = stopRecording s4"
    by simp
  moreover have "run ([ClickRecord, StreamSettled (length (pendingStarts s)) (CaptureResolved None)] @
      (if wakeLockSupported s then [WakeLockSettled granted] else []) @
      replicate n (Tick ?t) @ [Gathered ?r d, ClickRecord]) s = step ClickRecord s4"
    by (simp only: run_append run.simps s4_def s3_def s2_def s1_def)
  ultimately have fin: "run ([ClickRecord, StreamSettled (length (pendingStarts s)) (CaptureResolved None)] @
      (if wakeLockSupported s then [WakeLockSettled granted] else []) @
      replicate n (Tick ?t) @ [Gathered ?r d, ClickRecord]) s = stopRecording s4"
    by simp
  show ?thesis
    unfolding Let_def fin
    using stop_artifact [OF rec4] f4 by (simp add: stopRecording_keep)
qed

theorem artifact_duration_is_start_time_witness:
  "\<not> isRecording (initial_app False False) \<and>
   (let s1 = run [ClickRecord, StreamSettled 0 (CaptureResolved None), Tick 0, Tick 0, Tick 0,
                  Gathered 0 [1, 2], ClickRecord] (initial_app False False);
        s2 = run [ClickRecord, StreamSettled 0 (CaptureResolved None), Tick 1, Tick 1, Tick 1,
                  Tick 1, Tick 1, Gathered 1 [3], ClickRecord] s1
    in recordingTime s1 = 3 \<and>
       audioData s1 = Some \<lparr>blob = [1, 2], url = 0, duration = 0\<rparr> \<and>
       downloads s1 = [\<lparr>dl_blob = [1, 2], dl_source = Mic, dl_time = 0\<rparr>] \<and>
       \<not> isRecording s1 \<and>
       recordingTime s2 = 5 \<and>
       audioData s2 = Some \<lparr>blob = [3], url = 1, duration = 3\<rparr>)"
proof -
  define s1 where
    "s1 = run [ClickRecord, StreamSettled 0 (CaptureResolved None), Tick 0, Tick 0, Tick 0,
      Gathered 0 [1, 2], ClickRecord] (initial_app False False)"
  have idle: "\<not> isRecording (initial_app False False)"
    by (simp add: initial_app_def)
  have ticks: "replicate 3 (Tick t) = [Tick t, Tick t, Tick t]"
    "replicate 5 (Tick t) = [Tick t, Tick t, Tick t, Tick t, Tick t]" for t
    by (simp_all add: eval_nat_numeral)
  from artifact_duration_is_start_time [OF idle, where n = 3 and d = "[1, 2]"]
  have first: "recordingTime s1 = 3"
    "audioData s1 = Some \<lparr>blob = [1, 2], url = 0, duration = 0\<rparr>"
    "downloads s1 = [\<lparr>dl_blob = [1, 2], dl_source = Mic, dl_time = 0\<rparr>]"
    unfolding Let_def s1_def by (simp_all add: initial_app_def ticks del: run.simps)
  have h: "\<not> isRecording s1" "length (pendingStarts s1) = 0" "length (timers s1) = 1"
    "length (recorders s1) = 1" "\<not> wakeLockSupported s1" "objectUrls s1 = 1"
    by (simp_all add: s1_def handler_defs)
  from artifact_duration_is_start_time [OF h(1), where n = 5 and d = "[3]"]
  have second: "recordingTime
      (run [ClickRecord, StreamSettled 0 (CaptureResolved None), Tick 1, Tick 1, Tick 1,
        Tick 1, Tick 1, Gathered 1 [3], ClickRecord] s1) = 5"
    "audioData
      (run [ClickRecord, StreamSettled 0 (CaptureResolved None), Tick 1, Tick 1, Tick 1,
        Tick 1, Tick 1, Gathered 1 [3], ClickRecord] s1) =
      Some \<lparr>blob = [3], url = 1, duration = 3\<rparr>"
    unfolding Let_def by (simp_all add: h first ticks del: run.simps)
  from idle first h(1) second show ?thesis
    unfolding Let_def s1_def [symmetric] by (simp del: run.simps)
qed

subsection \<open>Frames and the session\<close>

lemma onmessage_fields:
  "onmessage message s = s\<lparr>transcribedText := transcribedText s @ appended_of message\<rparr>"
  by (simp add: onmessage_def appended_of_def split: option.split)

lemma appended_of_with_text: "\<not> textless message \<Longrightarrow> appended_of message = delta_of message"
  by (auto simp: textless_def appended_of_def delta_of_def appended_text_def
      split: option.splits)

lemma appended_of_delta [simp]:
  "appended_of (transcript_delta t) = t" "delta_of (transcript_delta t) = t"
  "\<not> textless (transcript_delta t)"
  by (simp_all add: appended_of_def delta_of_def textless_def transcript_delta_def
      appended_text_def)

lemma foldl_send:
  "foldl (\<lambda>s' d. sendRealtimeInput p d s') s ds =
     s\<lparr>wire := wire s @ map (\<lambda>d. (p, \<lparr>data = d, mimeType = ''audio/pcm;rate=16000''\<rparr>)) ds\<rparr>"
  by (induction ds arbitrary: s) (simp_all add: sendRealtimeInput_def)

lemma frames_cong: "contexts s' = contexts s \<Longrightarrow> frames s' es = frames s es"
  by (induction s es rule: frames.induct) (simp_all add: graph_running_def)

lemma frames_append: "frames s (es @ es') = frames s es @ frames s es'"
  by (induction s es rule: frames.induct) simp_all

lemma frames_Cons: "frames s (e # es) = frames s [e] @ frames s es"
  by (cases e) simp_all

lemma steady_step_frame:
  assumes "steady e" and "sessionPromiseRef s = Some p" and "p < length (promises s)"
  shows "sessionPromiseRef (step e s) = Some p \<and> contexts (step e s) = contexts s \<and>
    length (promises (step e s)) = length (promises s)"
  using assms
  by (cases e)
    (simp_all add: click_source_def wake_lock_settled_def start_timer_def
      requestWakeLock_settled_def onmessage_fields onaudioprocess_def promise_then_def
      sendRealtimeInput_def Let_def split: promise.split)

lemma steady_step_pending:
  assumes "steady e" and "sessionPromiseRef s = Some p" and "p < length (promises s)"
    and "promises s ! p = Pending callbacks"
  shows "promises (step e s) ! p = Pending (callbacks @ map base64Data_of (frames s [e])) \<and>
    wire (step e s) = wire s"
  using assms
  by (cases e)
    (simp_all add: click_source_def wake_lock_settled_def start_timer_def
      requestWakeLock_settled_def onmessage_fields onaudioprocess_def promise_then_def
      sendRealtimeInput_def Let_def)

lemma steady_step_fulfilled:
  assumes "steady e" and "sessionPromiseRef s = Some p" and "p < length (promises s)"
    and "promises s ! p = Fulfilled"
  shows "promises (step e s) ! p = Fulfilled \<and>
    wire (step e s) = wire s @ map (\<lambda>f. (p, frame_message f)) (frames s [e])"
  using assms
  by (cases e)
    (simp_all add: click_source_def wake_lock_settled_def start_timer_def
      requestWakeLock_settled_def onmessage_fields onaudioprocess_def promise_then_def
      sendRealtimeInput_def frame_message_def Let_def)

lemma run_steady_pending:
  assumes "list_all steady es" and "sessionPromiseRef s = Some p" and "p < length (promises s)"
    and "promises s ! p = Pending callbacks"
  shows "sessionPromiseRef (run es s) = Some p \<and> contexts (run es s) = contexts s \<and>
    length (promises (run es s)) = length (promises s) \<and>
    promises (run es s) ! p = Pending (callbacks @ map base64Data_of (frames s es)) \<and>
    wire (run es s) = wire s"
  using assms
proof (induction es arbitrary: s callbacks)
  case Nil
  then show ?case by simp
next
  case (Cons e es)
  from Cons.prems have st: "steady e" and rest: "list_all steady es"
    by simp_all
  note a = steady_step_frame [OF st Cons.prems(2,3)]
  note b = steady_step_pending [OF st Cons.prems(2,3,4)]
  have p': "p < length (promises (step e s))"
    using a Cons.prems(3) by simp
  note ih = Cons.IH [OF rest conjunct1 [OF a] p' conjunct1 [OF b]]
  have fr: "frames (step e s) es = frames s es"
    using a by (intro frames_cong) simp
  show ?case
    using ih a b fr by (simp add: frames_Cons [of s e es])
qed

lemma run_steady_fulfilled:
  assumes "list_all steady es" and "sessionPromiseRef s = Some p" and "p < length (promises s)"
    and "promises s ! p = Fulfilled"
  shows "wire (run es s) = wire s @ map (\<lambda>f. (p, frame_message f)) (frames s es)"
  using assms
proof (induction es arbitrary: s)
  case Nil
  then show ?case by simp
next
  case (Cons e es)
  from Cons.prems have st: "steady e" and rest: "list_all steady es"
    by simp_all
  note a = steady_step_frame [OF st Cons.prems(2,3)]
  note b = steady_step_fulfilled [OF st Cons.prems(2,3,4)]
  have p': "p < length (promises (step e s))"
    using a Cons.prems(3) by simp
  note ih = Cons.IH [OF rest conjunct1 [OF a] p' conjunct1 [OF b]]
  have fr: "frames (step e s) es = frames s es"
    using a by (intro frames_cong) simp
  show ?case
    using ih a b fr by (simp add: frames_Cons [of s e es])
qed

lemma connect_settled_flush:
  assumes "p < length (promises s)" and "promises s ! p = Pending callbacks"
  shows "connect_settled p True s =
    s\<lparr>promises := (promises s)[p := Fulfilled],
      wire := wire s @ map (\<lambda>d. (p, \<lparr>data = d, mimeType = ''audio/pcm;rate=16000''\<rparr>)) callbacks\<rparr>"
  using assms by (simp add: connect_settled_def foldl_send)

text \<open>
  Frames produced while the session is connecting. Let \<open>sessionPromiseRef\<close> hold a
  pending promise on which nothing is queued yet. Take any events that neither start
  nor stop a recording nor settle a connection, then the success of the connection,
  then more such events. Every buffer that a running graph produced, before the
  connection completed or after it, has then been sent, in production order.
\<close>

lemma early_frames_flushed_at_connect:
  assumes "sessionPromiseRef s = Some p" and "p < length (promises s)"
    and "promises s ! p = Pending []"
    and "list_all steady es1" and "list_all steady es2"
  shows "wire (run (es1 @ ConnectSettled p True # es2) s) =
    wire s @ map (\<lambda>f. (p, frame_message f)) (frames s (es1 @ es2))"
proof -
  let ?s1 = "run es1 s"
  note A = run_steady_pending [OF assms(4,1,2,3)]
  have len: "p < length (promises ?s1)"
    using A assms(2) by simp
  have pend: "promises ?s1 ! p = Pending (map base64Data_of (frames s es1))"
    using A by simp
  let ?s2 = "connect_settled p True ?s1"
  have s2: "?s2 = ?s1\<lparr>promises := (promises ?s1)[p := Fulfilled],
      wire := wire ?s1 @ map (\<lambda>d. (p, \<lparr>data = d, mimeType = ''audio/pcm;rate=16000''\<rparr>))
        (map base64Data_of (frames s es1))\<rparr>"
    by (rule connect_settled_flush [OF len pend])
  have ref2: "sessionPromiseRef ?s2 = Some p"
    using A by (simp add: s2)
  have len2: "p < length (promises ?s2)"
    using len by (simp add: s2)
  have ful2: "promises ?s2 ! p = Fulfilled"
    using len by (simp add: s2)
  have ctx2: "contexts ?s2 = contexts s"
    using A by (simp add: s2)
  have wire2: "wire ?s2 = wire s @ map (\<lambda>f. (p, frame_message f)) (frames s es1)"
    using A by (simp add: s2 frame_message_def)
  have "wire (run es2 ?s2) = wire ?s2 @ map (\<lambda>f. (p, frame_message f)) (frames ?s2 es2)"
    by (rule run_steady_fulfilled [OF assms(5) ref2 len2 ful2])
  also have "frames ?s2 es2 = frames s es2"
    by (rule frames_cong [OF ctx2])
  finally show ?thesis
    by (simp add: run_append wire2 frames_append)
qed

subsection \<open>Every frame of every session\<close>

lemma sent_same: "wire s' = wire s \<Longrightarrow> sent q s' = sent q s"
  by (simp add: sent_def)

lemma sent_append:
  "wire s' = wire s @ ws \<Longrightarrow>
   sent q s' = sent q s @ map snd (filter (\<lambda>qm. fst qm = q) ws)"
  by (simp add: sent_def)

lemma ledger_unchanged:
  assumes "session_ledger L s" and "promises s' = promises s" and "wire s' = wire s"
    and "sessionPromiseRef s' = sessionPromiseRef s \<or> sessionPromiseRef s' = None"
  shows "session_ledger L s'"
  using assms sent_same [OF assms(3)] by (auto simp: session_ledger_def)

lemma ledger_new:
  assumes "session_ledger L s" and "promises s' = promises s @ [Pending []]"
    and "wire s' = wire s" and "sessionPromiseRef s' = Some (length (promises s))"
  shows "session_ledger L s'"
  using assms sent_same [OF assms(3)]
  by (auto simp: session_ledger_def nth_append less_Suc_eq)

lemma ledger_queue:
  assumes "session_ledger L s" and "sessionPromiseRef s = Some p"
    and "promises s ! p = Pending callbacks"
    and "promises s' = (promises s)[p := Pending (callbacks @ [base64Data_of f])]"
    and "wire s' = wire s" and "sessionPromiseRef s' = sessionPromiseRef s"
  shows "session_ledger (L(p := L p @ [f])) s'"
  using assms sent_same [OF assms(5)]
  by (auto simp: session_ledger_def nth_list_update)

lemma ledger_send:
  assumes "session_ledger L s" and "sessionPromiseRef s = Some p"
    and "promises s ! p = Fulfilled" and "promises s' = promises s"
    and "wire s' = wire s @ [(p, frame_message f)]"
    and "sessionPromiseRef s' = sessionPromiseRef s"
  shows "session_ledger (L(p := L p @ [f])) s'"
  using assms sent_append [OF assms(5)]
  by (auto simp: session_ledger_def)

lemma ledger_dropped:
  assumes "session_ledger L s" and "sessionPromiseRef s = Some p"
    and "promises s ! p = Rejected" and "promises s' = promises s"
    and "wire s' = wire s" and "sessionPromiseRef s' = sessionPromiseRef s"
  shows "session_ledger (L(p := L p @ [f])) s'"
  using assms sent_same [OF assms(5)]
  by (auto simp: session_ledger_def)

lemma filter_session:
  "map snd (filter (\<lambda>qm. fst qm = q)
      (map (\<lambda>d. (p, \<lparr>data = d, mimeType = ''audio/pcm;rate=16000''\<rparr>)) callbacks)) =
   (if q = p then map (\<lambda>d. \<lparr>data = d, mimeType = ''audio/pcm;rate=16000''\<rparr>) callbacks else [])"
  by (induction callbacks) auto

lemma ledger_fulfil:
  assumes "session_ledger L s" and "p < length (promises s)"
    and "promises s ! p = Pending callbacks"
    and "promises s' = (promises s)[p := Fulfilled]"
    and "wire s' = wire s @
      map (\<lambda>d. (p, \<lparr>data = d, mimeType = ''audio/pcm;rate=16000''\<rparr>)) callbacks"
    and "sessionPromiseRef s' = sessionPromiseRef s"
  shows "session_ledger L s'"
  using assms sent_append [OF assms(5)]
  by (auto simp: session_ledger_def nth_list_update filter_session frame_message_def)

lemma ledger_reject:
  assumes "session_ledger L s" and "p < length (promises s)"
    and "promises s ! p = Pending callbacks"
    and "promises s' = (promises s)[p := Rejected]"
    and "wire s' = wire s" and "sessionPromiseRef s' = sessionPromiseRef s"
  shows "session_ledger L s'"
  using assms sent_same [OF assms(5)]
  by (auto simp: session_ledger_def nth_list_update)

lemma resume_session:
  "promises (startRecording_resume cl cs failure s) =
     (if failure = Some AtGoogleGenAI then promises s else promises s @ [Pending []])"
  "wire (startRecording_resume cl cs failure s) = wire s"
  "sessionPromiseRef (startRecording_resume cl cs failure s) =
     (if failure = Some AtGoogleGenAI then sessionPromiseRef s else Some (length (promises s)))"
  by (simp_all add: resume_defs)

lemma stream_settled_session:
  "promises (stream_settled k res s) =
     (if k < length (pendingStarts s) \<and> res \<noteq> CaptureRejected \<and>
         res \<noteq> CaptureResolved (Some AtGoogleGenAI)
      then promises s @ [Pending []] else promises s)"
  "wire (stream_settled k res s) = wire s"
  "sessionPromiseRef (stream_settled k res s) =
     (if k < length (pendingStarts s) \<and> res \<noteq> CaptureRejected \<and>
         res \<noteq> CaptureResolved (Some AtGoogleGenAI)
      then Some (length (promises s)) else sessionPromiseRef s)"
  by (simp_all add: stream_settled_def resume_session start_catch_def Let_def
      split: capture_result.split)

lemma produced_single:
  "produced p [e] s =
     (case e of
        AudioProcess c inputData \<Rightarrow>
          (if graph_running c s \<and> sessionPromiseRef s = Some p then [inputData] else [])
      | _ \<Rightarrow> [])"
  by (cases e) simp_all

lemma step_ledger:
  assumes inv: "session_ledger L s"
  shows "session_ledger (\<lambda>p. L p @ produced p [e] s) (step e s)"
proof (cases e)
  case ClickRecord
  have "session_ledger L (step ClickRecord s)"
    by (rule ledger_unchanged [OF inv])
      (simp_all add: stopRecording_keep startRecording_def)
  with ClickRecord show ?thesis
    by (simp add: produced_single)
next
  case ClickMic
  have "session_ledger L (step ClickMic s)"
    by (rule ledger_unchanged [OF inv]) (simp_all add: click_source_def)
  with ClickMic show ?thesis
    by (simp add: produced_single)
next
  case ClickSystem
  have "session_ledger L (step ClickSystem s)"
    by (rule ledger_unchanged [OF inv]) (simp_all add: click_source_def)
  with ClickSystem show ?thesis
    by (simp add: produced_single)
next
  case (StreamSettled k res)
  have "session_ledger L (stream_settled k res s)"
  proof (cases "k < length (pendingStarts s) \<and> res \<noteq> CaptureRejected \<and>
      res \<noteq> CaptureResolved (Some AtGoogleGenAI)")
    case True
    then show ?thesis
      by (intro ledger_new [OF inv]) (simp_all add: stream_settled_session)
  next
    case False
    then show ?thesis
      by (intro ledger_unchanged [OF inv]) (auto simp: stream_settled_session)
  qed
  with StreamSettled show ?thesis
    by (simp add: produced_single)
next
  case (WakeLockSettled granted)
  have "session_ledger L (step (WakeLockSettled granted) s)"
    by (rule ledger_unchanged [OF inv])
      (simp_all add: wake_lock_settled_def start_timer_def requestWakeLock_settled_def)
  with WakeLockSettled show ?thesis
    by (simp add: produced_single)
next
  case (ConnectSettled p ok)
  have "session_ledger L (connect_settled p ok s)"
  proof (cases "p < length (promises s)")
    case False
    then show ?thesis
      using inv by (simp add: connect_settled_def)
  next
    case True
    show ?thesis
    proof (cases "promises s ! p")
      case (Pending callbacks)
      show ?thesis
      proof (cases ok)
        case True
        show ?thesis
          by (rule ledger_fulfil [OF inv \<open>p < length (promises s)\<close> Pending])
            (simp_all add: connect_settled_def \<open>p < length (promises s)\<close> Pending True foldl_send)
      next
        case False
        show ?thesis
          by (rule ledger_reject [OF inv \<open>p < length (promises s)\<close> Pending])
            (simp_all add: connect_settled_def \<open>p < length (promises s)\<close> Pending False)
      qed
    next
      case Fulfilled
      then show ?thesis
        using inv by (simp add: connect_settled_def)
    next
      case Rejected
      then show ?thesis
        using inv by (simp add: connect_settled_def)
    qed
  qed
  with ConnectSettled show ?thesis
    by (simp add: produced_single)
next
  case (Message p message)
  have "session_ledger L (step (Message p message) s)"
    by (rule ledger_unchanged [OF inv]) (simp_all add: onmessage_fields)
  with Message show ?thesis
    by (simp add: produced_single)
next
  case (Gathered i d)
  have "session_ledger L (step (Gathered i d) s)"
    by (rule ledger_unchanged [OF inv]) simp_all
  with Gathered show ?thesis
    by (simp add: produced_single)
next
  case (Tick t)
  have "session_ledger L (step (Tick t) s)"
    by (rule ledger_unchanged [OF inv]) simp_all
  with Tick show ?thesis
    by (simp add: produced_single)
next
  case (AudioProcess c f)
  show ?thesis
  proof (cases "graph_running c s")
    case False
    with AudioProcess inv show ?thesis
      by (simp add: produced_single)
  next
    case run: True
    show ?thesis
    proof (cases "sessionPromiseRef s")
      case None
      with AudioProcess inv run show ?thesis
        by (simp add: produced_single onaudioprocess_def)
    next
      case (Some q)
      with inv have q: "q < length (promises s)"
        by (simp add: session_ledger_def)
      have L: "(\<lambda>p. L p @ produced p [e] s) = L(q := L q @ [f])"
        using AudioProcess run Some by (auto simp: produced_single)
      have st: "step e s = promise_then q (base64Data_of f) s"
        using AudioProcess run Some by (simp add: onaudioprocess_def)
      show ?thesis
      proof (cases "promises s ! q")
        case (Pending callbacks)
        have "session_ledger (L(q := L q @ [f])) (promise_then q (base64Data_of f) s)"
          by (rule ledger_queue [OF inv Some Pending])
            (simp_all add: promise_then_def q Pending)
        then show ?thesis
          by (simp only: L st)
      next
        case Fulfilled
        have "session_ledger (L(q := L q @ [f])) (promise_then q (base64Data_of f) s)"
          by (rule ledger_send [OF inv Some Fulfilled])
            (simp_all add: promise_then_def q Fulfilled sendRealtimeInput_def frame_message_def)
        then show ?thesis
          by (simp only: L st)
      next
        case Rejected
        have "session_ledger (L(q := L q @ [f])) (promise_then q (base64Data_of f) s)"
          by (rule ledger_dropped [OF inv Some Rejected])
            (simp_all add: promise_then_def q Rejected)
        then show ?thesis
          by (simp only: L st)
      qed
    qed
  qed
qed

lemma produced_Cons: "produced p (e # es) s = produced p [e] s @ produced p es (step e s)"
  by (cases e) simp_all

lemma run_ledger:
  "session_ledger L s \<Longrightarrow> session_ledger (\<lambda>p. L p @ produced p es s) (run es s)"
proof (induction es arbitrary: L s)
  case Nil
  then show ?case by simp
next
  case (Cons e es)
  from Cons.IH [OF step_ledger [OF Cons.prems, of e]] show ?case
    by (simp add: produced_Cons [of _ e es s])
qed

lemma initial_ledger: "session_ledger (\<lambda>p. []) (initial_app mobile wake)"
  by (simp add: session_ledger_def initial_app_def sent_def)



text \<open>
  C6. The message sent for a frame holds the encoded payload and the media type, and
  nothing else: two frames with the same samples are forwarded as the same message, so
  no sequence number travels with them.
\<close>

theorem frames_carry_no_sequence_number:
  "map snd (wire (run [ClickRecord, StreamSettled 0 (CaptureResolved None), ConnectSettled 0 True,
       AudioProcess 0 (replicate 4096 (Finite 0)), AudioProcess 0 (replicate 4096 (Finite 0))]
     (initial_app False False))) =
   [\<lparr>data = base64Data_of (replicate 4096 (Finite 0)), mimeType = ''audio/pcm;rate=16000''\<rparr>,
    \<lparr>data = base64Data_of (replicate 4096 (Finite 0)), mimeType = ''audio/pcm;rate=16000''\<rparr>]"
  by (simp add: handler_defs)

lemma onaudioprocess_open:
  "sessionPromiseRef s = Some p \<Longrightarrow> session_open p s \<Longrightarrow>
   onaudioprocess inputData s =
     s\<lparr>wire := wire s @
       [(p, \<lparr>data = base64Data_of inputData, mimeType = ''audio/pcm;rate=16000''\<rparr>)]\<rparr>"
  by (simp add: onaudioprocess_def promise_then_def session_open_def sendRealtimeInput_def)

text \<open>
  Frames of an open session: every buffer handed to \<open>onaudioprocess\<close> is forwarded
  at once as one message that holds the encoded payload and the media type.
\<close>

lemma open_session_frames_forwarded:
  assumes "sessionPromiseRef s = Some p" and "session_open p s"
  shows "wire (foldl (\<lambda>s' inputData. onaudioprocess inputData s') s buffers) =
    wire s @ map (\<lambda>inputData.
      (p, \<lparr>data = base64Data_of inputData, mimeType = ''audio/pcm;rate=16000''\<rparr>)) buffers"
  using assms
proof (induction buffers arbitrary: s)
  case Nil
  then show ?case by simp
next
  case (Cons b buffers)
  let ?s = "onaudioprocess b s"
  have eq: "?s = s\<lparr>wire := wire s @
      [(p, \<lparr>data = base64Data_of b, mimeType = ''audio/pcm;rate=16000''\<rparr>)]\<rparr>"
    by (rule onaudioprocess_open [OF Cons.prems])
  have "sessionPromiseRef ?s = Some p" and "session_open p ?s"
    using Cons.prems by (simp_all add: eq session_open_def)
  from Cons.IH [OF this] show ?case
    by (simp add: eq)
qed

text \<open>
  C6, as the code has it. In every execution of the component, from its first render
  on, the messages sent on a session are, one for one and in production order, the
  buffers produced for it, those produced while its connection was pending included;
  each message holds exactly the encoded payload and the media type
  \<open>audio/pcm;rate=16000\<close>, and no sequence number. On a session whose connection has
  not completed nothing is sent.
\<close>

theorem every_frame_forwarded_untagged_in_order:
  "sent p (run es (initial_app mobile wake)) =
     (if p < length (promises (run es (initial_app mobile wake))) \<and>
         promises (run es (initial_app mobile wake)) ! p = Fulfilled
      then map (\<lambda>inputData.
             \<lparr>data = base64Data_of inputData, mimeType = ''audio/pcm;rate=16000''\<rparr>)
           (produced p es (initial_app mobile wake))
      else [])"
proof -
  let ?s = "run es (initial_app mobile wake)"
  let ?fs = "produced p es (initial_app mobile wake)"
  have inv: "session_ledger (\<lambda>p. produced p es (initial_app mobile wake)) ?s"
    using run_ledger [OF initial_ledger, of es mobile wake] by simp
  show ?thesis
  proof (cases "p < length (promises ?s)")
    case False
    with inv have "sent p ?s = []"
      by (simp add: session_ledger_def)
    with False show ?thesis
      by simp
  next
    case True
    with inv have acc: "accounted (promises ?s ! p) ?fs (sent p ?s)"
      by (simp add: session_ledger_def)
    show ?thesis
    proof (cases "promises ?s ! p")
      case (Pending callbacks)
      with acc True show ?thesis by simp
    next
      case Fulfilled
      with acc True show ?thesis by (simp add: frame_message_def)
    next
      case Rejected
      with acc True show ?thesis by simp
    qed
  qed
qed

theorem every_frame_forwarded_untagged_in_order_witness:
  "(let es = [ClickRecord, StreamSettled 0 (CaptureResolved None), AudioProcess 0 [Finite 1],
              AudioProcess 0 [Finite 0]];
        s = run es (initial_app False False);
        s' = run (es @ [ConnectSettled 0 True, AudioProcess 0 [Finite (1 / 2)]])
               (initial_app False False)
    in promises s ! 0 = Pending [base64Data_of [Finite 1], base64Data_of [Finite 0]] \<and>
       sent 0 s = [] \<and>
       promises s' ! 0 = Fulfilled \<and>
       sent 0 s' =
         [\<lparr>data = base64Data_of [Finite 1], mimeType = ''audio/pcm;rate=16000''\<rparr>,
          \<lparr>data = base64Data_of [Finite 0], mimeType = ''audio/pcm;rate=16000''\<rparr>,
          \<lparr>data = base64Data_of [Finite (1 / 2)], mimeType = ''audio/pcm;rate=16000''\<rparr>])"
proof -
  define es where
    "es = [ClickRecord, StreamSettled 0 (CaptureResolved None), AudioProcess 0 [Finite 1],
      AudioProcess 0 [Finite 0]]"
  define es' where "es' = es @ [ConnectSettled 0 True, AudioProcess 0 [Finite (1 / 2)]]"
  define s where "s = run es (initial_app False False)"
  define s' where "s' = run es' (initial_app False False)"
  have h: "0 < length (promises s)"
    "promises s ! 0 = Pending [base64Data_of [Finite 1], base64Data_of [Finite 0]]"
    by (simp_all add: s_def es_def handler_defs)
  have h': "0 < length (promises s')" "promises s' ! 0 = Fulfilled"
    by (simp_all add: s'_def es'_def es_def handler_defs)
  have prod: "produced 0 es' (initial_app False False) =
      [[Finite 1], [Finite 0], [Finite (1 / 2)]]"
    by (simp add: es'_def es_def handler_defs)
  from every_frame_forwarded_untagged_in_order [of 0 es False False] h
  have pending: "sent 0 s = []"
    by (simp add: s_def [symmetric])
  from every_frame_forwarded_untagged_in_order [of 0 es' False False] h' prod
  have open_session: "sent 0 s' =
      [\<lparr>data = base64Data_of [Finite 1], mimeType = ''audio/pcm;rate=16000''\<rparr>,
       \<lparr>data = base64Data_of [Finite 0], mimeType = ''audio/pcm;rate=16000''\<rparr>,
       \<lparr>data = base64Data_of [Finite (1 / 2)], mimeType = ''audio/pcm;rate=16000''\<rparr>]"
    by (simp add: s'_def [symmetric])
  from h h' pending open_session show ?thesis
    unfolding Let_def es_def [symmetric] es'_def [symmetric] s_def [symmetric]
      s'_def [symmetric]
    by simp
qed

subsection \<open>A start that fails\<close>

text \<open>
  C3. A start in system mode whose stream carries no audio track fails at
  \<open>createMediaStreamSource\<close>. The error is reported and \<open>isRecording\<close> stays
  false, but the stream that was acquired is still live and held in the state, the
  session connect has been attempted and its promise is held, and the audio context
  has been created and is open.
\<close>

theorem failed_start_keeps_resources:
  "(let s = run [ClickSystem, ClickRecord,
                 StreamSettled 0 (CaptureResolved (Some AtMediaStreamSource))]
              (initial_app False False)
    in isRecording s = False \<and> alerts s = 1 \<and> streams s = [True] \<and> stream s = Some 0 \<and>
       promises s = [Pending []] \<and> sessionPromiseRef s = Some 0 \<and>
       contexts s = [\<lparr>ctx_closed = False, ctx_graph = False\<rparr>] \<and> audioCtxRef s = Some 0)"
  by (simp add: handler_defs)

lemma isRecording_resume_failed:
  "isRecording (startRecording_resume cl cs (Some failure) s) = isRecording s"
  by (cases failure) (simp_all add: resume_defs)

lemma alerts_resume_failed:
  "alerts (startRecording_resume cl cs (Some failure) s) = alerts s + 1"
  by (cases failure) (simp_all add: resume_defs)

text \<open>
  C3, as the code has it. When the stream request is rejected, the suspended start
  only reports the error: the state is otherwise unchanged, so no stream is held, no
  audio context or graph has been built and no session connect has been attempted.
  When a later step fails, the error is reported as well (one more alert) and
  \<open>isRecording\<close> is left as it was.
\<close>

theorem failed_start_stays_idle:
  "stream_settled k CaptureRejected s =
     (if k < length (pendingStarts s)
      then s\<lparr>pendingStarts := remove_nth k (pendingStarts s), alerts := alerts s + 1\<rparr>
      else s) \<and>
   streams (stream_settled k CaptureRejected s) = streams s \<and>
   stream (stream_settled k CaptureRejected s) = stream s \<and>
   contexts (stream_settled k CaptureRejected s) = contexts s \<and>
   audioCtxRef (stream_settled k CaptureRejected s) = audioCtxRef s \<and>
   promises (stream_settled k CaptureRejected s) = promises s \<and>
   sessionPromiseRef (stream_settled k CaptureRejected s) = sessionPromiseRef s \<and>
   isRecording (stream_settled k CaptureRejected s) = isRecording s \<and>
   isRecording (stream_settled k (CaptureResolved (Some failure)) s) = isRecording s \<and>
   alerts (stream_settled k (CaptureResolved (Some failure)) s) =
     (if k < length (pendingStarts s) then alerts s + 1 else alerts s)"
  by (simp add: stream_settled_def start_catch_def isRecording_resume_failed
      alerts_resume_failed Let_def)

theorem failed_start_stays_idle_witness:
  "(let s = run [ClickRecord, StreamSettled 0 CaptureRejected] (initial_app False False)
    in isRecording s = False \<and> alerts s = 1 \<and> streams s = [] \<and> stream s = None \<and>
       contexts s = [] \<and> promises s = [] \<and> pendingStarts s = []) \<and>
   (let s = run [ClickRecord, StreamSettled 0 (CaptureResolved (Some AtAudioContext))]
              (initial_app False False)
    in isRecording s = False \<and> alerts s = 1)"
proof -
  let ?s = "startRecording (initial_app False False)"
  have pending: "0 < length (pendingStarts ?s)"
    by (simp add: startRecording_def)
  have idle: "isRecording ?s = False" "alerts ?s = 0"
    by (simp_all add: startRecording_def initial_app_def)
  note th = failed_start_stays_idle [of 0 ?s AtAudioContext]
  from th pending idle
  have later: "isRecording (stream_settled 0 (CaptureResolved (Some AtAudioContext)) ?s) = False"
    "alerts (stream_settled 0 (CaptureResolved (Some AtAudioContext)) ?s) = 1"
    by simp_all
  from th pending later show ?thesis
    by (simp add: initial_app_def startRecording_def remove_nth_def Let_def)
qed

subsection \<open>Stopping twice\<close>

text \<open>
  C4. \<open>stopRecording\<close> is idempotent: a second call right after the first changes
  nothing, and a call in the idle state changes nothing at all. The state holds every
  resource and every output (artifact, downloads, messages sent), so nothing
  observable changes either.
\<close>

theorem stopRecording_idempotent:
  "stopRecording (stopRecording s) = stopRecording s \<and>
   (\<not> isRecording s \<longrightarrow> stopRecording s = s)"
proof
  have "\<not> isRecording (stopRecording s)"
    by (simp add: stopRecording_keep)
  then show "stopRecording (stopRecording s) = stopRecording s"
    by (subst stopRecording_def) simp
  show "\<not> isRecording s \<longrightarrow> stopRecording s = s"
    by (simp add: stopRecording_def)
qed

theorem stopRecording_idempotent_witness:
  "\<not> isRecording (initial_app False False) \<and>
   stopRecording (initial_app False False) = initial_app False False \<and>
   (let s = run [ClickRecord, StreamSettled 0 (CaptureResolved None), Tick 0]
              (initial_app False False)
    in isRecording s \<and> stopRecording s \<noteq> s \<and>
       stopRecording (stopRecording s) = stopRecording s)"
proof -
  define s where
    "s = run [ClickRecord, StreamSettled 0 (CaptureResolved None), Tick 0]
      (initial_app False False)"
  have idle: "\<not> isRecording (initial_app False False)"
    by (simp add: initial_app_def)
  have rec: "isRecording s"
    by (simp add: s_def handler_defs)
  have "isRecording (stopRecording s) \<noteq> isRecording s"
    using rec by (simp add: stopRecording_keep)
  then have diff: "stopRecording s \<noteq> s"
    by auto
  from stopRecording_idempotent [of "initial_app False False"] stopRecording_idempotent [of s]
    idle rec diff
  show ?thesis
    unfolding Let_def s_def [symmetric] by simp
qed

subsection \<open>The source buttons\<close>

text \<open>
  C9. While a start is still waiting for its stream, \<open>isRecording\<close> is false and the
  source buttons are enabled: a click on the system button changes the mode. The
  recording that then begins runs on the microphone stream that was requested, under
  the mode \<open>System\<close>.
\<close>

theorem mode_changes_while_starting:
  "(let s0 = step ClickRecord (initial_app False False);
        s1 = step ClickSystem s0;
        s2 = step (StreamSettled 0 (CaptureResolved None)) s1
    in length (pendingStarts s0) = 1 \<and> sourceMode s0 = Mic \<and> sourceMode s1 = System \<and>
       isRecording s2 \<and> sourceMode s2 = System \<and> map api (requests s2) = [GetUserMedia])"
  by (simp add: handler_defs)

text \<open>
  C9, as the code has it. While \<open>isRecording\<close> holds, a click on a source button
  changes nothing. While it does not hold, which includes the time in which a start
  waits for its stream, a click sets the mode (the system button only where it is
  rendered, that is off mobile platforms).
\<close>

theorem mode_locked_while_recording:
  "(isRecording s \<longrightarrow> step ClickMic s = s \<and> step ClickSystem s = s) \<and>
   (\<not> isRecording s \<longrightarrow>
      sourceMode (step ClickMic s) = Mic \<and>
      sourceMode (step ClickSystem s) = (if isMobile s then sourceMode s else System))"
  by (simp add: click_source_def)

theorem mode_locked_while_recording_witness:
  "(let s = run [ClickRecord, StreamSettled 0 (CaptureResolved None)] (initial_app False False)
    in isRecording s \<and> step ClickMic s = s \<and> step ClickSystem s = s \<and> sourceMode s = Mic) \<and>
   \<not> isRecording (initial_app False False) \<and>
   sourceMode (step ClickMic (initial_app False False)) = Mic \<and>
   sourceMode (step ClickSystem (initial_app False False)) = System"
proof -
  define s where
    "s = run [ClickRecord, StreamSettled 0 (CaptureResolved None)] (initial_app False False)"
  have rec: "isRecording s" "sourceMode s = Mic"
    by (simp_all add: s_def handler_defs)
  have idle: "\<not> isRecording (initial_app False False)" "\<not> isMobile (initial_app False False)"
    by (simp_all add: initial_app_def)
  from mode_locked_while_recording [of s] mode_locked_while_recording [of "initial_app False False"]
    rec idle
  show ?thesis
    unfolding Let_def s_def [symmetric] by simp
qed

subsection \<open>The transcript\<close>

lemma session_open_Message: "session_open p (step (Message q message) s) = session_open p s"
  by (simp add: session_open_def onmessage_fields)

lemma run_deltas:
  "session_open p s \<Longrightarrow>
   transcribedText (run (map (\<lambda>t. Message p (transcript_delta t)) ts) s) =
     transcribedText s @ concat ts"
proof (induction ts arbitrary: s)
  case Nil
  then show ?case by simp
next
  case (Cons t ts)
  have "session_open p (step (Message p (transcript_delta t)) s)"
    using Cons.prems by (simp only: session_open_Message)
  from Cons.IH [OF this] Cons.prems show ?case
    by (simp add: onmessage_fields)
qed

text \<open>
  C10. \<open>stopRecording\<close> leaves the transcript and every promise as they are; of the
  session it only sets \<open>sessionPromiseRef\<close> to \<open>null\<close>. So a session that was open
  stays open and its \<open>onmessage\<close> stays in place: the deltas that it delivers after
  the stop are appended to the transcript, in their order.
\<close>

theorem stop_keeps_session_and_transcript:
  "transcribedText (stopRecording s) = transcribedText s \<and>
   promises (stopRecording s) = promises s \<and>
   session_open p (stopRecording s) = session_open p s \<and>
   (isRecording s \<longrightarrow> sessionPromiseRef (stopRecording s) = None) \<and>
   (session_open p s \<longrightarrow>
      transcribedText (run (map (\<lambda>t. Message p (transcript_delta t)) ts) (stopRecording s)) =
        transcribedText s @ concat ts)"
proof (intro conjI impI)
  show "transcribedText (stopRecording s) = transcribedText s"
    and "promises (stopRecording s) = promises s"
    by (simp_all add: stopRecording_keep)
  show "session_open p (stopRecording s) = session_open p s"
    by (simp add: session_open_def stopRecording_keep)
next
  assume "isRecording s"
  then show "sessionPromiseRef (stopRecording s) = None"
    by (simp add: stopRecording_keep)
next
  assume "session_open p s"
  then have "session_open p (stopRecording s)"
    by (simp add: session_open_def stopRecording_keep)
  from run_deltas [OF this, of ts]
  show "transcribedText (run (map (\<lambda>t. Message p (transcript_delta t)) ts) (stopRecording s)) =
      transcribedText s @ concat ts"
    by (simp add: stopRecording_keep)
qed

theorem stop_keeps_session_and_transcript_witness:
  "(let s = run [ClickRecord, StreamSettled 0 (CaptureResolved None), ConnectSettled 0 True,
                 Message 0 (transcript_delta ''a'')] (initial_app False False)
    in isRecording s \<and> session_open 0 s \<and> transcribedText s = ''a'' \<and>
       sessionPromiseRef (stopRecording s) = None \<and>
       transcribedText (run [Message 0 (transcript_delta ''b''), Message 0 (transcript_delta ''c'')]
         (stopRecording s)) = ''abc'')"
proof -
  define s where
    "s = run [ClickRecord, StreamSettled 0 (CaptureResolved None), ConnectSettled 0 True,
      Message 0 (transcript_delta ''a'')] (initial_app False False)"
  have h: "isRecording s" "session_open 0 s" "transcribedText s = ''a''"
    by (simp_all add: s_def handler_defs transcript_delta_def)
  from stop_keeps_session_and_transcript [of s 0 "[''b'', ''c'']"] h
  show ?thesis
    unfolding Let_def s_def [symmetric] by (simp del: run.simps)
qed

lemma transcribedText_connect_settled:
  "transcribedText (connect_settled p ok s) = transcribedText s"
  by (simp add: connect_settled_def foldl_send split: promise.split)

lemma transcribedText_onaudioprocess:
  "transcribedText (onaudioprocess inputData s) = transcribedText s"
  by (simp add: onaudioprocess_def promise_then_def sendRealtimeInput_def Let_def
      split: option.split promise.split)

lemma transcribedText_resume:
  "transcribedText (startRecording_resume cl captureStream failure s) = []"
  by (simp add: resume_defs)

lemma transcribedText_stream_settled:
  "transcribedText (stream_settled k res s) =
     (if k < length (pendingStarts s) \<and> res \<noteq> CaptureRejected then [] else transcribedText s)"
  by (simp add: stream_settled_def transcribedText_resume start_catch_def Let_def
      split: capture_result.split)

lemma step_keeps:
  "\<not> acquires e \<Longrightarrow>
   transcribedText (step e s) = transcribedText s @
     (case e of
        Message p message \<Rightarrow> if session_open p s then appended_of message else []
      | _ \<Rightarrow> [])"
proof (cases e)
  case (StreamSettled k res)
  assume "\<not> acquires e"
  with StreamSettled have "res = CaptureRejected"
    by (cases res) simp_all
  with StreamSettled show ?thesis
    by (simp add: transcribedText_stream_settled)
qed (simp_all add: stopRecording_keep startRecording_def click_source_def
    wake_lock_settled_def start_timer_def requestWakeLock_settled_def
    transcribedText_connect_settled onmessage_fields transcribedText_onaudioprocess)

lemma step_appends:
  "\<not> acquires e \<Longrightarrow> with_text e \<Longrightarrow>
   transcribedText (step e s) = transcribedText s @ concat (received [e] s)"
  using step_keeps [of e s] by (cases e) (simp_all add: appended_of_with_text)

lemma step_never_clears:
  "\<not> acquires e \<Longrightarrow>
   take (length (transcribedText s)) (transcribedText (step e s)) = transcribedText s"
  using step_keeps [of e s] by simp

lemma received_Cons: "received (e # es) s = received [e] s @ received es (step e s)"
  by (cases e) simp_all

lemma run_appends:
  "list_all (\<lambda>e. \<not> acquires e) es \<Longrightarrow> list_all with_text es \<Longrightarrow>
   transcribedText (run es s) = transcribedText s @ concat (received es s)"
proof (induction es arbitrary: s)
  case Nil
  then show ?case by simp
next
  case (Cons e es)
  then have e: "\<not> acquires e" "with_text e"
    and es: "list_all (\<lambda>e. \<not> acquires e) es" "list_all with_text es"
    by simp_all
  have "transcribedText (run (e # es) s) = transcribedText (run es (step e s))"
    by simp
  also have "\<dots> = transcribedText (step e s) @ concat (received es (step e s))"
    by (rule Cons.IH [OF es])
  also have "transcribedText (step e s) = transcribedText s @ concat (received [e] s)"
    by (rule step_appends [OF e])
  finally show ?case
    by (simp add: received_Cons [of e es s])
qed

text \<open>
  C5. Three executions in which the transcript is not the concatenation of the deltas
  received since the most recent start. In each, a first recording has left the
  transcript \<open>a\<close> and its session open.
  A delta \<open>x\<close> that arrives after the click on start and before the stream is
  appended and then cleared with the rest: during the recording that follows the
  transcript is empty.
  A start that obtains its stream and then fails clears the transcript although no
  recording begins.
  A transcription without a text appends the string \<open>undefined\<close>.
\<close>

theorem transcript_misses_deltas:
  "(let s1 = run [ClickRecord, StreamSettled 0 (CaptureResolved None), ConnectSettled 0 True,
                  Message 0 (transcript_delta ''a''), ClickRecord] (initial_app False False);
        s2 = run [ClickRecord, Message 0 (transcript_delta ''x''),
                  StreamSettled 0 (CaptureResolved None)] s1;
        s3 = run [ClickRecord, StreamSettled 0 (CaptureResolved (Some AtMediaStreamSource))] s1;
        s4 = step (Message 0 textless_delta) s1
    in transcribedText s1 = ''a'' \<and> isRecording s1 = False \<and>
       received [ClickRecord, Message 0 (transcript_delta ''x''),
                 StreamSettled 0 (CaptureResolved None)] s1 = [''x''] \<and>
       isRecording s2 = True \<and> transcribedText s2 = [] \<and>
       isRecording s3 = False \<and> recorders s3 = recorders s1 \<and> transcribedText s3 = [] \<and>
       received [Message 0 textless_delta] s1 = [[]] \<and> transcribedText s4 = ''aundefined'')"
  by (simp add: handler_defs transcript_delta_def textless_delta_def delta_of_def)

text \<open>
  C5, as the code has it. The transcript is cleared where a start has obtained its
  stream and resets the state. From there on, whatever happens short of another such
  point, and as long as every transcription that arrives has a text, the transcript
  is the concatenation, in arrival order, of the deltas received since that point.
  No other event clears the transcript: every other event leaves what the transcript
  holds in place, and one that brings a delta with a text appends that text. A
  settling that finds no suspended start changes nothing.
\<close>

theorem transcript_is_deltas_since_acquisition:
  "(k < length (pendingStarts s) \<and> list_all (\<lambda>e. \<not> acquires e) es \<and> list_all with_text es \<longrightarrow>
      transcribedText (run es (step (StreamSettled k (CaptureResolved failure)) s)) =
        concat (received es (step (StreamSettled k (CaptureResolved failure)) s))) \<and>
   (\<not> acquires e \<and> with_text e \<longrightarrow>
      transcribedText (step e s) = transcribedText s @ concat (received [e] s)) \<and>
   (\<not> acquires e \<longrightarrow>
      take (length (transcribedText s)) (transcribedText (step e s)) = transcribedText s) \<and>
   (length (pendingStarts s) \<le> k \<longrightarrow> step (StreamSettled k res) s = s)"
proof (intro conjI impI)
  let ?s = "step (StreamSettled k (CaptureResolved failure)) s"
  assume a: "k < length (pendingStarts s) \<and> list_all (\<lambda>e. \<not> acquires e) es \<and>
    list_all with_text es"
  then have "transcribedText ?s = []"
    by (simp add: transcribedText_stream_settled)
  with run_appends [of es ?s] a show "transcribedText (run es ?s) = concat (received es ?s)"
    by simp
next
  assume "\<not> acquires e \<and> with_text e"
  then show "transcribedText (step e s) = transcribedText s @ concat (received [e] s)"
    by (simp add: step_appends)
next
  assume "\<not> acquires e"
  then show "take (length (transcribedText s)) (transcribedText (step e s)) = transcribedText s"
    by (rule step_never_clears)
next
  assume "length (pendingStarts s) \<le> k"
  then show "step (StreamSettled k res) s = s"
    by (simp add: stream_settled_def)
qed

theorem transcript_is_deltas_since_acquisition_witness:
  "(let s = run [ClickRecord, StreamSettled 0 (CaptureResolved None), ConnectSettled 0 True,
                 Message 0 (transcript_delta ''old''), ClickRecord, ClickRecord]
              (initial_app False False);
        es = [Tick 1, Message 0 (transcript_delta ''ab''), ConnectSettled 1 True, Tick 1,
              Message 1 (transcript_delta ''c''), ClickRecord, Message 1 (transcript_delta ''d'')]
    in transcribedText s = ''old'' \<and> 0 < length (pendingStarts s) \<and>
       list_all (\<lambda>e. \<not> acquires e) es \<and> list_all with_text es \<and>
       transcribedText (run es (step (StreamSettled 0 (CaptureResolved None)) s)) = ''abcd'' \<and>
       \<not> acquires (Message 0 (transcript_delta ''new'')) \<and>
       with_text (Message 0 (transcript_delta ''new'')) \<and>
       transcribedText (step (Message 0 (transcript_delta ''new'')) s) = ''oldnew'' \<and>
       \<not> acquires (Message 0 textless_delta) \<and>
       take 3 (transcribedText (step (Message 0 textless_delta) s)) = ''old'' \<and>
       length (pendingStarts s) \<le> 1 \<and>
       step (StreamSettled 1 (CaptureResolved None)) s = s)"
proof -
  define s where
    "s = run [ClickRecord, StreamSettled 0 (CaptureResolved None), ConnectSettled 0 True,
      Message 0 (transcript_delta ''old''), ClickRecord, ClickRecord] (initial_app False False)"
  define es where
    "es = [Tick 1, Message 0 (transcript_delta ''ab''), ConnectSettled 1 True, Tick 1,
      Message 1 (transcript_delta ''c''), ClickRecord, Message 1 (transcript_delta ''d'')]"
  let ?s = "step (StreamSettled 0 (CaptureResolved None)) s"
  have h: "transcribedText s = ''old''" "0 < length (pendingStarts s)" "session_open 0 s"
    by (simp_all add: s_def handler_defs transcript_delta_def)
  have es: "list_all (\<lambda>e. \<not> acquires e) es" "list_all with_text es"
    by (simp_all add: es_def)
  have r: "concat (received es ?s) = ''abcd''"
    by (simp add: s_def es_def handler_defs transcript_delta_def delta_of_def)
  from transcript_is_deltas_since_acquisition [of 0 s es None] h es r
  have first: "transcribedText (run es ?s) = ''abcd''"
    by (simp del: run.simps step.simps)
  from transcript_is_deltas_since_acquisition [of 0 s es None "Message 0 (transcript_delta ''new'')"] h
  have second: "transcribedText (step (Message 0 (transcript_delta ''new'')) s) = ''oldnew''"
    by simp
  from transcript_is_deltas_since_acquisition [of 0 s es None "Message 0 textless_delta"] h
  have third: "take 3 (transcribedText (step (Message 0 textless_delta) s)) = ''old''"
    by (simp add: numeral_3_eq_3 del: step.simps)
  have one: "length (pendingStarts s) \<le> 1"
    by (simp add: s_def handler_defs transcript_delta_def)
  from transcript_is_deltas_since_acquisition [of 1 s es None _ "CaptureResolved None"] one
  have fourth: "step (StreamSettled 1 (CaptureResolved None)) s = s"
    by (simp del: step.simps)
  from h es first second third one fourth show ?thesis
    unfolding Let_def s_def [symmetric] es_def [symmetric]
    by (simp del: run.simps step.simps)
qed

end
